theory Spec2Isabelle
  imports Complex_Main "HOL-Library.AList" "HOL-Library.Multiset"
begin

section \<open>The document tree\<close>

text \<open>
  kdiff.go works on the values that the YAML codec decodes into Go's
  \<^verbatim>\<open>interface{}\<close>: \<^verbatim>\<open>nil\<close>, a bool, a float64, a string, a
  \<^verbatim>\<open>map[string]interface{}\<close> or a \<^verbatim>\<open>[]interface{}\<close>.

  \<^item> \<open>GoNil\<close> is Go's \<^verbatim>\<open>nil\<close>. The program uses it both for a YAML null and for
    "nothing at this path": \<^verbatim>\<open>getValueAtPath\<close> returns \<^verbatim>\<open>nil\<close> for an absent node.
  \<^item> A number is the real that the finite float64 denotes; the codec yields no NaN.
  \<^item> A Go map is an association list. The program only looks keys up, stores and deletes
    them (\<open>map_of\<close>, \<open>AList.update\<close>, \<open>AList.delete\<close>); where it ranges over a map the
    order of the visit is not fixed by the language, and the functions below that depend
    on it take the order as an argument.
  \<^item> A slice is the list of its visible elements together with its capacity. The
    capacity decides whether \<^verbatim>\<open>append\<close> writes into the backing array that the tree
    still points to, or into a fresh one that the tree never sees.

  The functions of kdiff.go mutate their argument in place and return nothing; the model
  returns the argument as the caller sees it afterwards. A map is a reference, so a store
  into it is seen by the caller. A slice is passed as a copy of its header (pointer,
  length, capacity): a store to one of its elements is seen by the caller, a new header
  assigned to the callee's variable is not.
\<close>

datatype tree =
    GoNil
  | Bool bool
  | Num real
  | Str string
  | MapT "(string \<times> tree) list"
  | ListT "tree list" nat

section \<open>strconv.Atoi and strings.Split\<close>

text \<open>
  \<^verbatim>\<open>strconv.Atoi\<close> of the Go library, on a 64-bit platform: an optional sign, then one
  or more decimal digits and nothing else; a number outside the range of int64 is an
  error. \<open>None\<close> is the error.
\<close>

definition digitVal :: "char \<Rightarrow> nat option" where
  "digitVal ch =
     (let n = (of_char ch :: nat) in if 48 \<le> n \<and> n \<le> 57 then Some (n - 48) else None)"

fun parseDigits :: "string \<Rightarrow> nat \<Rightarrow> nat option" where
  "parseDigits [] n = Some n"
| "parseDigits (ch # s) n =
     (case digitVal ch of None \<Rightarrow> None | Some d \<Rightarrow> parseDigits s (n * 10 + d))"

definition Atoi :: "string \<Rightarrow> int option" where
  "Atoi s =
     (case s of
        [] \<Rightarrow> None
      | ch # s1 \<Rightarrow>
          (let neg = (ch = CHR ''-'');
               ds = (if ch = CHR ''-'' \<or> ch = CHR ''+'' then s1 else s)
           in if ds = [] then None
              else (case parseDigits ds 0 of
                      None \<Rightarrow> None
                    | Some n \<Rightarrow>
                        (let i = (if neg then - int n else int n)
                         in if - (2 ^ 63) \<le> i \<and> i < 2 ^ 63 then Some i else None))))"

text \<open>\<^verbatim>\<open>strings.Split(s, "/")\<close>: the pieces between the slashes, at least one piece.\<close>

fun splitSlash :: "string \<Rightarrow> string list" where
  "splitSlash [] = [[]]"
| "splitSlash (ch # s) =
     (if ch = CHR ''/'' then [] # splitSlash s
      else (case splitSlash s of [] \<Rightarrow> [[ch]] | w # ws \<Rightarrow> (ch # w) # ws))"

text \<open>
  \<^verbatim>\<open>
  func parsePath(path string) []string {
      if len(path) > 0 && path[0] == '/' { path = path[1:] }
      return strings.Split(path, "/")
  }
  \<close>
\<close>

definition parsePath :: "string \<Rightarrow> string list" where
  "parsePath path =
     (case path of
        [] \<Rightarrow> splitSlash []
      | ch # rest \<Rightarrow> if ch = CHR ''/'' then splitSlash rest else splitSlash path)"

section \<open>Path addressing\<close>

text \<open>
  \<^verbatim>\<open>
  func getValueAtPath(m interface{}, path []string) interface{} {
      if len(path) == 0 { return m }
      key := path[0]
      switch m := m.(type) {
      case map[string]interface{}:
          if val, exists := m[key]; exists { return getValueAtPath(val, path[1:]) }
      case []interface{}:
          if idx, err := strconv.Atoi(key); err == nil && idx >= 0 && idx < len(m) {
              return getValueAtPath(m[idx], path[1:])
          }
      }
      return nil
  }
  \<close>
\<close>

fun getValueAtPath :: "tree \<Rightarrow> string list \<Rightarrow> tree" where
  "getValueAtPath m [] = m"
| "getValueAtPath m (key # rest) =
     (case m of
        MapT kvs \<Rightarrow>
          (case map_of kvs key of
             Some val \<Rightarrow> getValueAtPath val rest
           | None \<Rightarrow> GoNil)
      | ListT xs c \<Rightarrow>
          (case Atoi key of
             Some idx \<Rightarrow>
               if 0 \<le> idx \<and> idx < int (length xs)
               then getValueAtPath (xs ! nat idx) rest
               else GoNil
           | None \<Rightarrow> GoNil)
      | _ \<Rightarrow> GoNil)"

section \<open>The add, replace and remove operations\<close>

text \<open>
  \<^verbatim>\<open>applyAdd\<close>, last segment, on a slice \<^verbatim>\<open>m\<close> of length \<open>n\<close>:
  \<^verbatim>\<open>
      if idx == -1 {
          m = append(m, value)
      } else if idx >= 0 && idx <= len(m) {
          m = append(m[:idx], append([]interface{}{value}, m[idx:]...)...)
      }
  \<close>
  Both statements assign the result to the callee's own \<^verbatim>\<open>m\<close>; the tree keeps the old
  header, so its list keeps its length \<open>n\<close>. \<^verbatim>\<open>append(m, value)\<close> writes at most slot
  \<open>n\<close> of the backing array, which the tree does not show. The outer \<^verbatim>\<open>append\<close> of the
  second statement needs \<open>n + 1\<close> slots: when the capacity has them it writes
  \<^verbatim>\<open>value, m[idx], ..., m[n-1]\<close> into slots \<open>idx .. n\<close> of the array the tree points to,
  and the tree shows the first \<open>n\<close> of them; otherwise it writes into a fresh array.
\<close>

fun applyAdd :: "tree \<Rightarrow> string list \<Rightarrow> tree \<Rightarrow> tree" where
  "applyAdd m [] val = m"
| "applyAdd m [key] val =
     (case m of
        MapT kvs \<Rightarrow> MapT (AList.update key val kvs)
      | ListT xs c \<Rightarrow>
          (case Atoi key of
             Some idx \<Rightarrow>
               if idx = - 1 then ListT xs c
               else if 0 \<le> idx \<and> idx \<le> int (length xs) then
                 (if length xs + 1 \<le> c
                  then ListT (take (length xs) (take (nat idx) xs @ val # drop (nat idx) xs)) c
                  else ListT xs c)
               else ListT xs c
           | None \<Rightarrow> ListT xs c)
      | _ \<Rightarrow> m)"
| "applyAdd m (key # rest) val =
     (case m of
        MapT kvs \<Rightarrow>
          (case map_of kvs key of
             None \<Rightarrow> MapT (AList.update key (applyAdd (MapT []) rest val) kvs)
           | Some child \<Rightarrow> MapT (AList.update key (applyAdd child rest val) kvs))
      | ListT xs c \<Rightarrow>
          (case Atoi key of
             Some idx \<Rightarrow>
               if 0 \<le> idx \<and> idx < int (length xs)
               then ListT (xs[nat idx := applyAdd (xs ! nat idx) rest val]) c
               else ListT xs c
           | None \<Rightarrow> ListT xs c)
      | _ \<Rightarrow> m)"

text \<open>
  \<^verbatim>\<open>applyReplace\<close> differs from \<^verbatim>\<open>applyAdd\<close> in the last segment on a slice only:
  \<^verbatim>\<open>if idx, err := strconv.Atoi(key); err == nil && idx >= 0 && idx < len(m) { m[idx] = value }\<close>
\<close>

fun applyReplace :: "tree \<Rightarrow> string list \<Rightarrow> tree \<Rightarrow> tree" where
  "applyReplace m [] val = m"
| "applyReplace m [key] val =
     (case m of
        MapT kvs \<Rightarrow> MapT (AList.update key val kvs)
      | ListT xs c \<Rightarrow>
          (case Atoi key of
             Some idx \<Rightarrow>
               if 0 \<le> idx \<and> idx < int (length xs)
               then ListT (xs[nat idx := val]) c
               else ListT xs c
           | None \<Rightarrow> ListT xs c)
      | _ \<Rightarrow> m)"
| "applyReplace m (key # rest) val =
     (case m of
        MapT kvs \<Rightarrow>
          (case map_of kvs key of
             None \<Rightarrow> MapT (AList.update key (applyReplace (MapT []) rest val) kvs)
           | Some child \<Rightarrow> MapT (AList.update key (applyReplace child rest val) kvs))
      | ListT xs c \<Rightarrow>
          (case Atoi key of
             Some idx \<Rightarrow>
               if 0 \<le> idx \<and> idx < int (length xs)
               then ListT (xs[nat idx := applyReplace (xs ! nat idx) rest val]) c
               else ListT xs c
           | None \<Rightarrow> ListT xs c)
      | _ \<Rightarrow> m)"

text \<open>
  \<^verbatim>\<open>applyRemove\<close>, last segment: \<^verbatim>\<open>delete(m, key)\<close> on a map; on a slice of length \<open>n\<close>
  \<^verbatim>\<open>m = append(m[:idx], m[idx+1:]...)\<close> for \<open>0 \<le> idx < n\<close>. The \<^verbatim>\<open>append\<close> always fits:
  it moves \<^verbatim>\<open>m[idx+1], ..., m[n-1]\<close> one slot down in the array the tree points to and
  leaves slot \<open>n - 1\<close> as it was. The shorter header goes to the callee's own \<^verbatim>\<open>m\<close>, so
  the tree still shows \<open>n\<close> elements, the last one twice. Below the last segment a
  missing map key is not created: \<^verbatim>\<open>if _, exists := m[key]; exists { applyRemove(...) }\<close>.
\<close>

fun applyRemove :: "tree \<Rightarrow> string list \<Rightarrow> tree" where
  "applyRemove m [] = m"
| "applyRemove m [key] =
     (case m of
        MapT kvs \<Rightarrow> MapT (AList.delete key kvs)
      | ListT xs c \<Rightarrow>
          (case Atoi key of
             Some idx \<Rightarrow>
               if 0 \<le> idx \<and> idx < int (length xs)
               then ListT (take (nat idx) xs @ drop (nat idx + 1) xs @ [last xs]) c
               else ListT xs c
           | None \<Rightarrow> ListT xs c)
      | _ \<Rightarrow> m)"
| "applyRemove m (key # rest) =
     (case m of
        MapT kvs \<Rightarrow>
          (case map_of kvs key of
             None \<Rightarrow> MapT kvs
           | Some child \<Rightarrow> MapT (AList.update key (applyRemove child rest) kvs))
      | ListT xs c \<Rightarrow>
          (case Atoi key of
             Some idx \<Rightarrow>
               if 0 \<le> idx \<and> idx < int (length xs)
               then ListT (xs[nat idx := applyRemove (xs ! nat idx) rest]) c
               else ListT xs c
           | None \<Rightarrow> ListT xs c)
      | _ \<Rightarrow> m)"

section \<open>Ranging over a Go map\<close>

text \<open>
  \<^verbatim>\<open>for k, v := range m\<close> visits every entry of \<^verbatim>\<open>m\<close> once, in an order the language
  does not specify. \<open>order\<close> stands for that choice: it is given the keys of the map and
  returns them in the order of the visit. \<open>validOrder\<close> says that it returns a
  rearrangement of the keys, which is all the language promises.
\<close>

definition rangeMap :: "(string list \<Rightarrow> string list) \<Rightarrow> (string \<times> 'v) list \<Rightarrow> (string \<times> 'v) list" where
  "rangeMap order m =
     concat (map (\<lambda>k. case map_of m k of None \<Rightarrow> [] | Some v \<Rightarrow> [(k, v)]) (order (map fst m)))"

definition validOrder :: "(string list \<Rightarrow> string list) \<Rightarrow> (string \<times> 'v) list \<Rightarrow> bool" where
  "validOrder order m = (mset (order (map fst m)) = mset (map fst m))"

section \<open>The strategic merge\<close>

text \<open>
  \<^verbatim>\<open>append(dstVal, srcVal...)\<close> as \<^verbatim>\<open>mergeMap\<close> uses it, with the result stored back
  under the key: the elements of \<^verbatim>\<open>dstVal\<close>, then those of \<^verbatim>\<open>srcVal\<close>. The capacity stays
  when the elements fit; otherwise the runtime allocates, and \<open>growslice\<close> (old capacity,
  needed length) stands for the capacity it chooses.
\<close>

definition appendSlice :: "(nat \<Rightarrow> nat \<Rightarrow> nat) \<Rightarrow> tree list \<Rightarrow> nat \<Rightarrow> tree list \<Rightarrow> tree" where
  "appendSlice growslice d dc s =
     (if length d + length s \<le> dc then ListT (d @ s) dc
      else ListT (d @ s) (growslice dc (length d + length s)))"

text \<open>
  \<^verbatim>\<open>
  func mergeMap(dst, src map[string]interface{}) {
      for key, srcVal := range src {
          if dstVal, exists := dst[key]; exists {
              switch srcVal := srcVal.(type) {
              case map[string]interface{}:
                  if dstVal, ok := dstVal.(map[string]interface{}); ok {
                      mergeMap(dstVal, srcVal)
                      continue
                  }
              case []interface{}:
                  if dstVal, ok := dstVal.([]interface{}); ok {
                      dst[key] = append(dstVal, srcVal...)
                      continue
                  }
              }
          }
          dst[key] = srcVal
      }
  }
  \<close>
  The entries of \<open>src\<close> are taken in the order of the association list, which stands
  for the order of the \<^verbatim>\<open>range\<close>.
\<close>

function mergeMap ::
  "(nat \<Rightarrow> nat \<Rightarrow> nat) \<Rightarrow> (string \<times> tree) list \<Rightarrow> (string \<times> tree) list \<Rightarrow> (string \<times> tree) list" where
  "mergeMap growslice dst [] = dst"
| "mergeMap growslice dst ((key, srcVal) # src) =
     mergeMap growslice
       (case map_of dst key of
          Some dstVal \<Rightarrow>
            (case srcVal of
               MapT s \<Rightarrow>
                 (case dstVal of
                    MapT d \<Rightarrow> AList.update key (MapT (mergeMap growslice d s)) dst
                  | _ \<Rightarrow> AList.update key srcVal dst)
             | ListT s sc \<Rightarrow>
                 (case dstVal of
                    ListT d dc \<Rightarrow> AList.update key (appendSlice growslice d dc s) dst
                  | _ \<Rightarrow> AList.update key srcVal dst)
             | _ \<Rightarrow> AList.update key srcVal dst)
        | None \<Rightarrow> AList.update key srcVal dst)
       src"
  by pat_completeness auto
termination
  by (relation "measure (\<lambda>(g, dst, src). size_list (size_prod (\<lambda>_. 0) size) src)") auto

text \<open>
  \<^verbatim>\<open>
  func deepCopyValue(v interface{}) interface{} {
      switch v := v.(type) {
      case map[string]interface{}:
          newMap := make(map[string]interface{})
          for k, val := range v { newMap[k] = deepCopyValue(val) }
          return newMap
      case []interface{}:
          newSlice := make([]interface{}, len(v))
          for i, val := range v { newSlice[i] = deepCopyValue(val) }
          return newSlice
      default:
          return v
      }
  }
  \<close>
\<close>

fun deepCopyValue :: "tree \<Rightarrow> tree" where
  "deepCopyValue (MapT kvs) = MapT (map (\<lambda>kv. (fst kv, deepCopyValue (snd kv))) kvs)"
| "deepCopyValue (ListT xs c) = ListT (map deepCopyValue xs) (length xs)"
| "deepCopyValue v = v"

text \<open>
  \<^verbatim>\<open>reflect.DeepEqual\<close> on decoded values: equal scalars of the same type; maps with the
  same number of entries where every key of the first is a key of the second with a
  deeply equal value; slices of the same length with deeply equal elements. Capacities
  and the order in which a map lists its entries play no part.
\<close>

fun deepEqual :: "tree \<Rightarrow> tree \<Rightarrow> bool" where
  "deepEqual GoNil GoNil = True"
| "deepEqual (Bool a) (Bool b) = (a = b)"
| "deepEqual (Num a) (Num b) = (a = b)"
| "deepEqual (Str a) (Str b) = (a = b)"
| "deepEqual (MapT a) (MapT b) =
     (length a = length b \<and>
      list_all (\<lambda>(k, v). case map_of b k of None \<Rightarrow> False | Some w \<Rightarrow> deepEqual v w) a)"
| "deepEqual (ListT xs c) (ListT ys d) = list_all2 deepEqual xs ys"
| "deepEqual _ _ = False"

section \<open>Field change records\<close>

text \<open>
  \<^verbatim>\<open>
  type FieldSource struct {
      Resource string
      Path     []string
      Source   string
      Original interface{}
      New      interface{}
  }
  var fieldSources []FieldSource
  \<close>
  In Go a map or a slice in \<^verbatim>\<open>Original\<close> or \<^verbatim>\<open>New\<close> is a reference to storage that the
  tree may still hold; the record of the model holds the value that this storage has at
  the moment the record is appended.
\<close>

record FieldSource =
  Resource :: string
  Path :: "string list"
  Source :: string
  Original :: tree
  New :: tree

text \<open>
  The calls of \<^verbatim>\<open>logFatal\<close> (which exits) in the patch loop and in the resolver, and the
  panic that the patch loop can reach.
\<close>

datatype fatal =
    InvalidPatchOperationFormat
  | MissingOrInvalidOperationType
  | MissingOrInvalidPath
  | NilTargetDereference
  | PatchedResourceRejected
  | FailedReadingKustomization
  | FailedParsingKustomization
  | FailedToLoadResource
  | NeitherKustomizationNorResource
  | BaseBuildFailed
  | KustomizeBuildFailed

subsection \<open>One operation of a JSON patch\<close>

text \<open>
  The body of the loop \<^verbatim>\<open>for _, op := range patchContent\<close> of \<^verbatim>\<open>main\<close>: the three type
  assertions with their \<^verbatim>\<open>logFatal\<close>, \<^verbatim>\<open>value := opMap["value"]\<close> (\<^verbatim>\<open>nil\<close> when the key
  is missing), the original value read before the change, and the \<^verbatim>\<open>switch opType\<close>
  with the cases \<^verbatim>\<open>"add"\<close>, \<^verbatim>\<open>"replace"\<close>, \<^verbatim>\<open>"remove"\<close> and no default. \<open>res\<close> is the
  \<^verbatim>\<open>kind/name\<close> of the target resource and \<open>src\<close> is \<^verbatim>\<open>patch.Path\<close>. The result is
  the resource map and the records that the operation appends to \<^verbatim>\<open>fieldSources\<close>.
\<close>

definition applyOp :: "string \<Rightarrow> string \<Rightarrow> tree \<Rightarrow> tree \<Rightarrow> fatal + (tree \<times> FieldSource list)" where
  "applyOp res src resourceMap op =
     (case op of
        MapT opMap \<Rightarrow>
          (case map_of opMap ''op'' of
             Some (Str opType) \<Rightarrow>
               (case map_of opMap ''path'' of
                  Some (Str path) \<Rightarrow>
                    (let val = (case map_of opMap ''value'' of None \<Rightarrow> GoNil | Some v \<Rightarrow> v);
                         pathKeys = parsePath path;
                         originalValue = getValueAtPath resourceMap pathKeys
                     in if opType = ''add'' then
                          Inr (applyAdd resourceMap pathKeys val,
                               [\<lparr>Resource = res, Path = pathKeys, Source = src,
                                 Original = originalValue, New = val\<rparr>])
                        else if opType = ''replace'' then
                          Inr (applyReplace resourceMap pathKeys val,
                               [\<lparr>Resource = res, Path = pathKeys, Source = src,
                                 Original = originalValue, New = val\<rparr>])
                        else if opType = ''remove'' then
                          Inr (applyRemove resourceMap pathKeys,
                               [\<lparr>Resource = res, Path = pathKeys, Source = src,
                                 Original = originalValue, New = GoNil\<rparr>])
                        else Inr (resourceMap, []))
                | _ \<Rightarrow> Inl MissingOrInvalidPath)
           | _ \<Rightarrow> Inl MissingOrInvalidOperationType)
      | _ \<Rightarrow> Inl InvalidPatchOperationFormat)"

text \<open>
  The loop over the operations of one patch. Every operation works on the map that the
  one before left. The value model is exact for a run of operations as long as no two
  places of the map share a Go map or a backing array. A decoded document shares
  nothing, and the one statement that makes two places share is the shift of
  \<^verbatim>\<open>applyRemove\<close> when it leaves a map or a slice in the last two slots of a list: a
  later operation that stores through one of the two slots is then seen through the
  other too, which a tree of values does not show. The theorems below that evaluate
  \<open>applyOps\<close> do so on runs without such a remove; the others hold whatever a run
  returns.
\<close>

fun applyOps :: "string \<Rightarrow> string \<Rightarrow> tree \<Rightarrow> tree list \<Rightarrow> fatal + (tree \<times> FieldSource list)" where
  "applyOps res src resourceMap [] = Inr (resourceMap, [])"
| "applyOps res src resourceMap (op # ops) =
     (case applyOp res src resourceMap op of
        Inl err \<Rightarrow> Inl err
      | Inr (resourceMap1, recs1) \<Rightarrow>
          (case applyOps res src resourceMap1 ops of
             Inl err \<Rightarrow> Inl err
           | Inr (resourceMap2, recs2) \<Rightarrow> Inr (resourceMap2, recs1 @ recs2)))"

subsection \<open>A strategic merge patch and its records\<close>

text \<open>
  \<^verbatim>\<open>
  for k, newVal := range resourceMap {
      oldVal, exists := originalState[k]
      if !exists || !reflect.DeepEqual(oldVal, newVal) {
          fieldSources = append(fieldSources, FieldSource{..., Path: []string{k},
              Source: patch.Path, Original: oldVal, New: newVal})
      }
  }
  \<close>
\<close>

fun recordChanged ::
  "string \<Rightarrow> string \<Rightarrow> (string \<times> tree) list \<Rightarrow> (string \<times> tree) list \<Rightarrow> FieldSource list" where
  "recordChanged res src originalState [] = []"
| "recordChanged res src originalState ((k, newVal) # visit) =
     (case map_of originalState k of
        None \<Rightarrow>
          [\<lparr>Resource = res, Path = [k], Source = src, Original = GoNil, New = newVal\<rparr>]
      | Some oldVal \<Rightarrow>
          if \<not> deepEqual oldVal newVal
          then [\<lparr>Resource = res, Path = [k], Source = src, Original = oldVal, New = newVal\<rparr>]
          else [])
     @ recordChanged res src originalState visit"

text \<open>
  \<^verbatim>\<open>
  for k, oldVal := range originalState {
      if _, exists := resourceMap[k]; !exists {
          fieldSources = append(fieldSources, FieldSource{..., Path: []string{k},
              Source: patch.Path, Original: oldVal, New: nil})
      }
  }
  \<close>
\<close>

fun recordRemoved ::
  "string \<Rightarrow> string \<Rightarrow> (string \<times> tree) list \<Rightarrow> (string \<times> tree) list \<Rightarrow> FieldSource list" where
  "recordRemoved res src resourceMap [] = []"
| "recordRemoved res src resourceMap ((k, oldVal) # visit) =
     (case map_of resourceMap k of
        None \<Rightarrow>
          [\<lparr>Resource = res, Path = [k], Source = src, Original = oldVal, New = GoNil\<rparr>]
      | Some _ \<Rightarrow> [])
     @ recordRemoved res src resourceMap visit"

text \<open>
  The case \<^verbatim>\<open>map[string]interface{}\<close> of the \<^verbatim>\<open>switch\<close> on the patch content: the copy
  of the top level (\<^verbatim>\<open>originalState[k] = deepCopyValue(v)\<close>), the merge, and the two loops
  above. The result is the merged map and the records appended.
\<close>

definition mergeChanges ::
  "(nat \<Rightarrow> nat \<Rightarrow> nat) \<Rightarrow> (string list \<Rightarrow> string list) \<Rightarrow> string \<Rightarrow> string \<Rightarrow>
   (string \<times> tree) list \<Rightarrow> (string \<times> tree) list \<Rightarrow> (string \<times> tree) list \<times> FieldSource list" where
  "mergeChanges growslice order res src resourceMap patchContent =
     (let originalState = map (\<lambda>kv. (fst kv, deepCopyValue (snd kv))) resourceMap;
          merged = mergeMap growslice resourceMap patchContent
      in (merged,
          recordChanged res src originalState (rangeMap order merged)
          @ recordRemoved res src merged (rangeMap order originalState)))"

section \<open>The patch loop of main\<close>

text \<open>
  \<^verbatim>\<open>types.Patch\<close> of the kustomize API with the fields the program reads (\<^verbatim>\<open>Path\<close>,
  \<^verbatim>\<open>Patch\<close>, \<^verbatim>\<open>Target\<close>; the target is a pointer and may be nil), and a resource of
  the external engine as the program sees it: \<^verbatim>\<open>GetKind()\<close>, \<^verbatim>\<open>GetName()\<close> and the map
  that \<^verbatim>\<open>yaml.Unmarshal([]byte(res.MustYaml()), &m)\<close> decodes.
\<close>

record Selector =
  Kind :: string
  Name :: string

record Patch =
  patchPath :: string
  patchPatch :: string
  patchTarget :: "Selector option"

record GoResource =
  GetKind :: string
  GetName :: string
  AsMap :: "(string \<times> tree) list"

text \<open>\<^verbatim>\<open>types.Kustomization\<close> with the four fields the program reads.\<close>

record Kustomization =
  Resources :: "string list"
  Components :: "string list"
  Patches :: "Patch list"
  PatchesJson6902 :: "Patch list"

text \<open>
  What the program takes from outside: the file system (\<^verbatim>\<open>fs.ReadFile\<close>), the codec
  (\<^verbatim>\<open>yaml.Unmarshal\<close> into an \<^verbatim>\<open>interface{}\<close>), the runtime's choices (capacity of a
  grown slice, order of a \<^verbatim>\<open>range\<close> over a map) and whether the steps after a patch
  succeed: marshalling the patched map, building a resource from it, decoding it again
  and diffing it against the state before; a failure there is a \<^verbatim>\<open>logFatal\<close>. For the
  resolver: \<^verbatim>\<open>filepath.Join\<close> of two elements, \<^verbatim>\<open>yaml.Unmarshal\<close> into a
  \<^verbatim>\<open>types.Kustomization\<close>, \<^verbatim>\<open>resource.NewFactory(nil).FromBytes\<close> and the build of the
  external engine, \<^verbatim>\<open>k.Run(fs, dir)\<close> with \<^verbatim>\<open>resMap.Resources()\<close>. \<open>None\<close> is an error.
\<close>

record Env =
  ReadFile :: "string \<Rightarrow> string option"
  Unmarshal :: "string \<Rightarrow> tree option"
  GrowSlice :: "nat \<Rightarrow> nat \<Rightarrow> nat"
  RangeOrder :: "string list \<Rightarrow> string list"
  Reloads :: "(string \<times> tree) list \<Rightarrow> bool"
  Join :: "string \<Rightarrow> string \<Rightarrow> string"
  UnmarshalKustomization :: "string \<Rightarrow> Kustomization option"
  FromBytes :: "string \<Rightarrow> GoResource option"
  Run :: "string \<Rightarrow> GoResource list option"

record State =
  fieldSources :: "FieldSource list"
  warnings :: "string list"

definition HasPrefix :: "string \<Rightarrow> string \<Rightarrow> bool" where
  "HasPrefix s pre = (take (length pre) s = pre)"

text \<open>
  \<^verbatim>\<open>
  targetKey := fmt.Sprintf("%s/%s", patch.Target.Kind, patch.Target.Name)
  if patch.Target.Name == "" {
      for key, res := range allResources {
          if strings.HasPrefix(key, patch.Target.Kind+"/") { targetRes = res; exists = true; break }
      }
  } else {
      targetRes, exists = allResources[targetKey]
  }
  \<close>
\<close>

definition findTarget ::
  "(string list \<Rightarrow> string list) \<Rightarrow> (string \<times> GoResource) list \<Rightarrow> Selector \<Rightarrow> GoResource option" where
  "findTarget order allResources target =
     (if Name target = ''''
      then (case filter (\<lambda>(key, res). HasPrefix key (Kind target @ ''/''))
                   (rangeMap order allResources) of
              [] \<Rightarrow> None
            | (key, res) # _ \<Rightarrow> Some res)
      else map_of allResources (Kind target @ ''/'' @ Name target))"

text \<open>
  The \<^verbatim>\<open>switch patchContent := patchContent.(type)\<close>: a list is a JSON patch, a map is a
  strategic merge patch, anything else changes nothing. The three operations return
  a map when they are given a map, so the last branch of the inner case is never taken.
\<close>

definition applyPatchContent ::
  "Env \<Rightarrow> string \<Rightarrow> string \<Rightarrow> (string \<times> tree) list \<Rightarrow> tree \<Rightarrow>
   fatal + ((string \<times> tree) list \<times> FieldSource list)" where
  "applyPatchContent env res src resourceMap patchContent =
     (case patchContent of
        ListT ops c \<Rightarrow>
          (case applyOps res src (MapT resourceMap) ops of
             Inl err \<Rightarrow> Inl err
           | Inr (m, recs) \<Rightarrow>
               (case m of MapT kvs \<Rightarrow> Inr (kvs, recs) | _ \<Rightarrow> Inr (resourceMap, recs)))
      | MapT src_map \<Rightarrow>
          Inr (mergeChanges (GrowSlice env) (RangeOrder env) res src resourceMap src_map)
      | _ \<Rightarrow> Inr (resourceMap, []))"

text \<open>
  One turn of \<^verbatim>\<open>for i, patch := range allPatches\<close>. The three \<^verbatim>\<open>continue\<close> statements
  print a warning and go to the next patch. Nothing in the loop stores into
  \<^verbatim>\<open>allResources\<close>: the patched resource is built into the local \<^verbatim>\<open>patchedRes\<close> only.
\<close>

definition processPatch ::
  "Env \<Rightarrow> (string \<times> GoResource) list \<Rightarrow> Patch \<Rightarrow> State \<Rightarrow> fatal + State" where
  "processPatch env allResources patch st =
     (case patchTarget patch of
        None \<Rightarrow> Inl NilTargetDereference
      | Some target \<Rightarrow>
          (case findTarget (RangeOrder env) allResources target of
             None \<Rightarrow>
               Inr (st\<lparr>warnings := warnings st @
                      [''Warning: No matching resource found for patch target'']\<rparr>)
           | Some targetRes \<Rightarrow>
               (case (if patchPath patch \<noteq> '''' then ReadFile env (patchPath patch)
                      else Some (patchPatch patch)) of
                  None \<Rightarrow>
                    Inr (st\<lparr>warnings := warnings st @
                           [''Warning: Reading patch '' @ patchPath patch @ '' failed'']\<rparr>)
                | Some patchData \<Rightarrow>
                    (case Unmarshal env patchData of
                       None \<Rightarrow>
                         Inr (st\<lparr>warnings := warnings st @
                                [''Warning: Failed to parse patch content'']\<rparr>)
                     | Some patchContent \<Rightarrow>
                         (case applyPatchContent env
                                 (GetKind targetRes @ ''/'' @ GetName targetRes)
                                 (patchPath patch) (AsMap targetRes) patchContent of
                            Inl err \<Rightarrow> Inl err
                          | Inr (resourceMap, recs) \<Rightarrow>
                              if Reloads env resourceMap
                              then Inr (st\<lparr>fieldSources := fieldSources st @ recs\<rparr>)
                              else Inl PatchedResourceRejected)))))"

fun processPatches ::
  "Env \<Rightarrow> (string \<times> GoResource) list \<Rightarrow> Patch list \<Rightarrow> State \<Rightarrow> fatal + State" where
  "processPatches env allResources [] st = Inr st"
| "processPatches env allResources (patch # rest) st =
     (case processPatch env allResources patch st of
        Inl err \<Rightarrow> Inl err
      | Inr st1 \<Rightarrow> processPatches env allResources rest st1)"

section \<open>The report\<close>

text \<open>
  \<^verbatim>\<open>
  resourceChanges := make(map[string][]FieldSource)
  for _, source := range fieldSources {
      resourceChanges[source.Resource] = append(resourceChanges[source.Resource], source)
  }
  for resource, changes := range resourceChanges { ... print the group ... }
  \<close>
  \<open>printedGroups\<close> is the sequence of groups in the order in which the second loop prints
  them.
\<close>

fun groupChanges ::
  "FieldSource list \<Rightarrow> (string \<times> FieldSource list) list \<Rightarrow> (string \<times> FieldSource list) list" where
  "groupChanges [] resourceChanges = resourceChanges"
| "groupChanges (source # rest) resourceChanges =
     groupChanges rest
       (AList.update (Resource source)
          ((case map_of resourceChanges (Resource source) of None \<Rightarrow> [] | Some cs \<Rightarrow> cs)
           @ [source])
          resourceChanges)"

definition printedGroups ::
  "(string list \<Rightarrow> string list) \<Rightarrow> FieldSource list \<Rightarrow> (string \<times> FieldSource list) list" where
  "printedGroups order changes = rangeMap order (groupChanges changes [])"

section \<open>The resolver\<close>

text \<open>
  \<^verbatim>\<open>
  for _, patch := range kust.Patches {
      if patch.Path != "" { patch.Path = filepath.Join(dir, string(patch.Path)) }
      *allPatches = append(*allPatches, patch)
  }
  \<close>
\<close>

definition collectPatches :: "Env \<Rightarrow> string \<Rightarrow> Patch list \<Rightarrow> Patch list \<Rightarrow> Patch list" where
  "collectPatches env dir declared allPatches =
     allPatches @
     map (\<lambda>patch. if patchPath patch \<noteq> ''''
                  then patch\<lparr>patchPath := Join env dir (patchPath patch)\<rparr>
                  else patch)
         declared"

text \<open>
  \<^verbatim>\<open>
  for _, patch := range kust.PatchesJson6902 {
      if patch.Path != "" { patch.Path = filepath.Join(dir, string(patch.Path)) }
      *allPatches = append(*allPatches, types.Patch{
          Target: patch.Target,
          Patch:  string(patch.Patch),
      })
  }
  \<close>
  The joined path is stored in the loop variable and not read again; the appended patch
  is a new struct whose \<^verbatim>\<open>Path\<close> is the zero value.
\<close>

definition collectJsonPatches :: "Env \<Rightarrow> string \<Rightarrow> Patch list \<Rightarrow> Patch list \<Rightarrow> Patch list" where
  "collectJsonPatches env dir declared allPatches =
     allPatches @
     map (\<lambda>patch. \<lparr>patchPath = '''', patchPatch = patchPatch patch,
                    patchTarget = patchTarget patch\<rparr>)
         declared"

definition resourceKey :: "GoResource \<Rightarrow> string" where
  "resourceKey res = GetKind res @ ''/'' @ GetName res"

text \<open>
  \<^verbatim>\<open>processResourceOrKustomization\<close> and \<^verbatim>\<open>processKustomization\<close> call each other for as
  long as directories name directories. A result is \<open>Some (Inl err)\<close> for a \<^verbatim>\<open>logFatal\<close>
  and \<open>Some (Inr (allPatches, allResources))\<close> for a return; \<open>None\<close> means that the
  nesting went deeper than the bound the model is given, so that nothing is said about
  the run.

  \<open>processEach\<close> is the loop
  \<^verbatim>\<open>for _, baseDir := range ... { processResourceOrKustomization(fs, k, filepath.Join(dir, baseDir), allPatches, allResources) }\<close>
  and \<open>processKustomizationBody\<close> the body of \<^verbatim>\<open>processKustomization\<close>, both with the call
  of \<^verbatim>\<open>processResourceOrKustomization\<close> as the argument \<open>recurse\<close>.
\<close>

fun processEach ::
  "(string \<Rightarrow> Patch list \<times> (string \<times> GoResource) list \<Rightarrow>
      (fatal + Patch list \<times> (string \<times> GoResource) list) option) \<Rightarrow>
   Env \<Rightarrow> string \<Rightarrow> string list \<Rightarrow> Patch list \<times> (string \<times> GoResource) list \<Rightarrow>
   (fatal + Patch list \<times> (string \<times> GoResource) list) option" where
  "processEach recurse env dir [] acc = Some (Inr acc)"
| "processEach recurse env dir (d # ds) acc =
     (case recurse (Join env dir d) acc of
        None \<Rightarrow> None
      | Some (Inl err) \<Rightarrow> Some (Inl err)
      | Some (Inr acc1) \<Rightarrow> processEach recurse env dir ds acc1)"

definition processKustomizationBody ::
  "(string \<Rightarrow> Patch list \<times> (string \<times> GoResource) list \<Rightarrow>
      (fatal + Patch list \<times> (string \<times> GoResource) list) option) \<Rightarrow>
   Env \<Rightarrow> string \<Rightarrow> Patch list \<times> (string \<times> GoResource) list \<Rightarrow>
   (fatal + Patch list \<times> (string \<times> GoResource) list) option" where
  "processKustomizationBody recurse env dir acc =
     (case ReadFile env (Join env dir ''kustomization.yaml'') of
        None \<Rightarrow> Some (Inl FailedReadingKustomization)
      | Some kustData \<Rightarrow>
          (case UnmarshalKustomization env kustData of
             None \<Rightarrow> Some (Inl FailedParsingKustomization)
           | Some kust \<Rightarrow>
               (case processEach recurse env dir (Resources kust)
                       (collectJsonPatches env dir (PatchesJson6902 kust)
                          (collectPatches env dir (Patches kust) (fst acc)),
                        snd acc) of
                  None \<Rightarrow> None
                | Some (Inl err) \<Rightarrow> Some (Inl err)
                | Some (Inr acc1) \<Rightarrow>
                    (case processEach recurse env dir (Components kust) acc1 of
                       None \<Rightarrow> None
                     | Some (Inl err) \<Rightarrow> Some (Inl err)
                     | Some (Inr acc2) \<Rightarrow>
                         (case Run env dir of
                            None \<Rightarrow> Some (Inl BaseBuildFailed)
                          | Some built \<Rightarrow>
                              Some (Inr (fst acc2,
                                         foldl (\<lambda>m res. AList.update (resourceKey res) res m)
                                               (snd acc2) built)))))))"

primrec processResourceOrKustomization ::
  "Env \<Rightarrow> nat \<Rightarrow> string \<Rightarrow> Patch list \<times> (string \<times> GoResource) list \<Rightarrow>
   (fatal + Patch list \<times> (string \<times> GoResource) list) option" where
  "processResourceOrKustomization env 0 = (\<lambda>path acc. None)"
| "processResourceOrKustomization env (Suc n) = (\<lambda>path acc.
     (case ReadFile env (Join env path ''kustomization.yaml'') of
        Some _ \<Rightarrow> processKustomizationBody (processResourceOrKustomization env n) env path acc
      | None \<Rightarrow>
          (case ReadFile env path of
             Some data \<Rightarrow>
               (case FromBytes env data of
                  None \<Rightarrow> Some (Inl FailedToLoadResource)
                | Some res \<Rightarrow> Some (Inr (fst acc, AList.update (resourceKey res) res (snd acc))))
           | None \<Rightarrow> Some (Inl NeitherKustomizationNorResource))))"

definition processKustomization ::
  "Env \<Rightarrow> nat \<Rightarrow> string \<Rightarrow> Patch list \<times> (string \<times> GoResource) list \<Rightarrow>
   (fatal + Patch list \<times> (string \<times> GoResource) list) option" where
  "processKustomization env n dir acc =
     processKustomizationBody (processResourceOrKustomization env n) env dir acc"

text \<open>
  The resolver part of \<^verbatim>\<open>main\<close> for the root directory: the build of the root by the
  external engine and the root manifest (a failure of either is a \<^verbatim>\<open>logFatal\<close>), the
  resources, the components, then the root's own patches and JSON patches, with the same
  two loops as above.
\<close>

definition mainCollect ::
  "Env \<Rightarrow> nat \<Rightarrow> string \<Rightarrow> (fatal + Patch list \<times> (string \<times> GoResource) list) option" where
  "mainCollect env n kustomizationDir =
     (case Run env kustomizationDir of
        None \<Rightarrow> Some (Inl KustomizeBuildFailed)
      | Some finalResMap \<Rightarrow>
     (case ReadFile env (Join env kustomizationDir ''kustomization.yaml'') of
        None \<Rightarrow> Some (Inl FailedReadingKustomization)
      | Some kustData \<Rightarrow>
          (case UnmarshalKustomization env kustData of
             None \<Rightarrow> Some (Inl FailedParsingKustomization)
           | Some kust \<Rightarrow>
               (case processEach (processResourceOrKustomization env n) env kustomizationDir
                       (Resources kust) ([], []) of
                  None \<Rightarrow> None
                | Some (Inl err) \<Rightarrow> Some (Inl err)
                | Some (Inr acc1) \<Rightarrow>
                    (case processEach (processResourceOrKustomization env n) env kustomizationDir
                            (Components kust) acc1 of
                       None \<Rightarrow> None
                     | Some (Inl err) \<Rightarrow> Some (Inl err)
                     | Some (Inr acc2) \<Rightarrow>
                         Some (Inr (collectJsonPatches env kustomizationDir (PatchesJson6902 kust)
                                      (collectPatches env kustomizationDir (Patches kust) (fst acc2)),
                                    snd acc2)))))))"

section \<open>What the specification says, as predicates\<close>

text \<open>
  The node at a path, read from the data alone: the tree itself at the empty path, the
  node under a key that a map holds, the node under an index that a list holds.
\<close>

inductive nodeAt :: "tree \<Rightarrow> string list \<Rightarrow> tree \<Rightarrow> bool" where
  nodeAt_here: "nodeAt m [] m"
| nodeAt_map:
    "map_of kvs key = Some child \<Longrightarrow> nodeAt child rest v \<Longrightarrow> nodeAt (MapT kvs) (key # rest) v"
| nodeAt_list:
    "Atoi key = Some idx \<Longrightarrow> 0 \<le> idx \<Longrightarrow> idx < int (length xs) \<Longrightarrow>
     nodeAt (xs ! nat idx) rest v \<Longrightarrow> nodeAt (ListT xs c) (key # rest) v"

definition isScalar :: "tree \<Rightarrow> bool" where
  "isScalar m = (case m of MapT _ \<Rightarrow> False | ListT _ _ \<Rightarrow> False | _ \<Rightarrow> True)"

definition isListT :: "tree \<Rightarrow> bool" where
  "isListT m = (case m of ListT _ _ \<Rightarrow> True | _ \<Rightarrow> False)"

text \<open>
  The four ways in which a path addresses nothing: a segment is missing from a map, a
  segment does not parse as an integer against a list, an index is outside
  \<open>[0, length)\<close>, a segment is applied to a scalar (or to \<^verbatim>\<open>nil\<close>); at the node the path
  starts from (the first four rules) or further down (the last two).
\<close>

inductive absentAt :: "tree \<Rightarrow> string list \<Rightarrow> bool" where
  absent_key: "map_of kvs key = None \<Longrightarrow> absentAt (MapT kvs) (key # rest)"
| absent_parse: "Atoi key = None \<Longrightarrow> absentAt (ListT xs c) (key # rest)"
| absent_range:
    "Atoi key = Some idx \<Longrightarrow> idx < 0 \<or> int (length xs) \<le> idx \<Longrightarrow>
     absentAt (ListT xs c) (key # rest)"
| absent_scalar: "isScalar m \<Longrightarrow> absentAt m (key # rest)"
| absent_in_map:
    "map_of kvs key = Some child \<Longrightarrow> absentAt child rest \<Longrightarrow> absentAt (MapT kvs) (key # rest)"
| absent_in_list:
    "Atoi key = Some idx \<Longrightarrow> 0 \<le> idx \<Longrightarrow> idx < int (length xs) \<Longrightarrow>
     absentAt (xs ! nat idx) rest \<Longrightarrow> absentAt (ListT xs c) (key # rest)"

text \<open>
  An operation is in range for a tree when its path is not empty, every segment before
  the last leads into a map (through a key that exists, or one that is missing and will
  be created) or into a list through an index in \<open>[0, length)\<close>, and the last segment
  is a key of a map or, when \<open>indexLast\<close> is set, an index in \<open>[0, length)\<close> of a list.
\<close>

fun inRange :: "bool \<Rightarrow> tree \<Rightarrow> string list \<Rightarrow> bool" where
  "inRange indexLast m [] = False"
| "inRange indexLast m [key] =
     (case m of
        MapT kvs \<Rightarrow> True
      | ListT xs c \<Rightarrow>
          indexLast \<and>
          (case Atoi key of Some idx \<Rightarrow> 0 \<le> idx \<and> idx < int (length xs) | None \<Rightarrow> False)
      | _ \<Rightarrow> False)"
| "inRange indexLast m (key # rest) =
     (case m of
        MapT kvs \<Rightarrow>
          (case map_of kvs key of None \<Rightarrow> True | Some child \<Rightarrow> inRange indexLast child rest)
      | ListT xs c \<Rightarrow>
          (case Atoi key of
             Some idx \<Rightarrow>
               0 \<le> idx \<and> idx < int (length xs) \<and> inRange indexLast (xs ! nat idx) rest
           | None \<Rightarrow> False)
      | _ \<Rightarrow> False)"

text \<open>
  The value that one turn of the loop of \<^verbatim>\<open>mergeMap\<close> leaves under the key, given what
  the destination held there (\<open>None\<close> when the key was missing) and the patch value.
\<close>

definition mergedValue :: "(nat \<Rightarrow> nat \<Rightarrow> nat) \<Rightarrow> tree option \<Rightarrow> tree \<Rightarrow> tree" where
  "mergedValue g dstOpt srcVal =
     (case dstOpt of
        Some (MapT d) \<Rightarrow> (case srcVal of MapT s \<Rightarrow> MapT (mergeMap g d s) | _ \<Rightarrow> srcVal)
      | Some (ListT d dc) \<Rightarrow> (case srcVal of ListT s sc \<Rightarrow> appendSlice g d dc s | _ \<Rightarrow> srcVal)
      | _ \<Rightarrow> srcVal)"

text \<open>The two type combinations that the merge treats specially.\<close>

definition bothMaps :: "tree option \<Rightarrow> tree \<Rightarrow> bool" where
  "bothMaps dstOpt srcVal =
     (case dstOpt of Some (MapT d) \<Rightarrow> (case srcVal of MapT s \<Rightarrow> True | _ \<Rightarrow> False) | _ \<Rightarrow> False)"

definition bothLists :: "tree option \<Rightarrow> tree \<Rightarrow> bool" where
  "bothLists dstOpt srcVal =
     (case dstOpt of Some (ListT d dc) \<Rightarrow> (case srcVal of ListT s sc \<Rightarrow> True | _ \<Rightarrow> False) | _ \<Rightarrow> False)"

text \<open>The elements that a slice shows.\<close>

definition listElems :: "tree \<Rightarrow> tree list" where
  "listElems m = (case m of ListT xs c \<Rightarrow> xs | _ \<Rightarrow> [])"

text \<open>
  A top-level key differs between the map before the merge and the map after it when
  one of them lacks it, or both hold it with values that are not deeply equal.
\<close>

definition topLevelDiffers :: "(string \<times> tree) list \<Rightarrow> (string \<times> tree) list \<Rightarrow> string \<Rightarrow> bool" where
  "topLevelDiffers before after k =
     (case map_of before k of
        None \<Rightarrow> (case map_of after k of None \<Rightarrow> False | Some new \<Rightarrow> True)
      | Some old \<Rightarrow> (case map_of after k of None \<Rightarrow> True | Some new \<Rightarrow> \<not> deepEqual old new))"

text \<open>
  A target matches no entry of the resource index: no key \<^verbatim>\<open>kind/name\<close> when the target
  has a name, no key with the prefix \<^verbatim>\<open>kind/\<close> when it has none.
\<close>

definition noMatch :: "(string \<times> GoResource) list \<Rightarrow> Selector \<Rightarrow> bool" where
  "noMatch allResources target =
     (if Name target = ''''
      then list_all (\<lambda>(key, res). \<not> HasPrefix key (Kind target @ ''/'')) allResources
      else map_of allResources (Kind target @ ''/'' @ Name target) = None)"

text \<open>The resource keys of a change log in the order in which they are first seen.\<close>

fun firstSeen :: "FieldSource list \<Rightarrow> string list" where
  "firstSeen [] = []"
| "firstSeen (source # rest) =
     Resource source # filter (\<lambda>k. k \<noteq> Resource source) (firstSeen rest)"

subsection \<open>Example data\<close>

text \<open>
  A directory \<^verbatim>\<open>root\<close> whose manifest declares one JSON patch by file,
  \<^verbatim>\<open>patchesJson6902: [{path: patch.json, target: {kind: Deployment, name: test}}]\<close>, the
  file \<^verbatim>\<open>root/patch.json\<close> with one \<^verbatim>\<open>replace\<close> operation, and an engine that builds the
  resource \<^verbatim>\<open>Deployment/test\<close> with \<^verbatim>\<open>spec.replicas = 1\<close> for \<^verbatim>\<open>root\<close>. The codec decodes
  the empty document to \<^verbatim>\<open>nil\<close>.
\<close>

definition exampleEnv :: Env where
  "exampleEnv =
     \<lparr>ReadFile = (\<lambda>p. if p = ''root/kustomization.yaml'' then Some ''K''
                        else if p = ''root/patch.json''
                        then Some ''[{op: replace, path: /spec/replicas, value: 3}]''
                        else None),
       Unmarshal = (\<lambda>s. if s = '''' then Some GoNil
                         else if s = ''[{op: replace, path: /spec/replicas, value: 3}]''
                         then Some (ListT [MapT [(''op'', Str ''replace''),
                                                 (''path'', Str ''/spec/replicas''),
                                                 (''value'', Num 3)]] 1)
                         else if s = ''spec: {replicas: 3}''
                         then Some (MapT [(''spec'', MapT [(''replicas'', Num 3)])])
                         else None),
       GrowSlice = (\<lambda>c n. n),
       RangeOrder = (\<lambda>ks. ks),
       Reloads = (\<lambda>m. True),
       Join = (\<lambda>d f. d @ ''/'' @ f),
       UnmarshalKustomization =
         (\<lambda>s. if s = ''K''
               then Some \<lparr>Resources = [], Components = [], Patches = [],
                          PatchesJson6902 =
                            [\<lparr>patchPath = ''patch.json'', patchPatch = '''',
                               patchTarget = Some \<lparr>Kind = ''Deployment'', Name = ''test''\<rparr>\<rparr>]\<rparr>
               else None),
       FromBytes = (\<lambda>s. None),
       Run = (\<lambda>d. Some [\<lparr>GetKind = ''Deployment'', GetName = ''test'',
                           AsMap = [(''spec'', MapT [(''replicas'', Num 1)])]\<rparr>])\<rparr>"

section \<open>Theorems\<close>

subsection \<open>Evaluating Atoi\<close>

lemma Atoi_minus_one: "Atoi ''-1'' = Some (- 1)"
  by (simp add: Atoi_def digitVal_def)

lemma Atoi_0: "Atoi ''0'' = Some 0"
  by (simp add: Atoi_def digitVal_def)

lemma Atoi_1: "Atoi ''1'' = Some 1"
  by (simp add: Atoi_def digitVal_def)

lemma Atoi_5: "Atoi ''5'' = Some 5"
  by (simp add: Atoi_def digitVal_def)

subsection \<open>Reading a path\<close>

lemma nodeAt_get: "nodeAt m path v \<Longrightarrow> getValueAtPath m path = v"
  by (induction rule: nodeAt.induct) auto

lemma absentAt_get: "absentAt m path \<Longrightarrow> getValueAtPath m path = GoNil"
  by (induction rule: absentAt.induct) (auto simp: isScalar_def split: tree.splits)

lemma absentAt_not_nodeAt: "absentAt m path \<Longrightarrow> \<not> nodeAt m path v"
proof (induction arbitrary: v rule: absentAt.induct)
  case (absent_scalar m key rest)
  then show ?case by (auto simp: isScalar_def elim: nodeAt.cases)
qed (auto elim: nodeAt.cases)

lemma absentAt_or_nodeAt: "absentAt m path \<or> nodeAt m path (getValueAtPath m path)"
proof (induction m path rule: getValueAtPath.induct)
  case (1 m)
  show ?case by (simp add: nodeAt_here)
next
  case (2 m key rest)
  show ?case
  proof (cases m)
    case (MapT kvs)
    show ?thesis
    proof (cases "map_of kvs key")
      case None
      with MapT show ?thesis by (simp add: absent_key)
    next
      case (Some child)
      with MapT 2(1)[OF MapT Some] show ?thesis
        by (auto intro: absent_in_map nodeAt_map)
    qed
  next
    case (ListT xs c)
    show ?thesis
    proof (cases "Atoi key")
      case None
      with ListT show ?thesis by (simp add: absent_parse)
    next
      case (Some idx)
      show ?thesis
      proof (cases "0 \<le> idx \<and> idx < int (length xs)")
        case True
        with ListT Some 2(2)[OF ListT Some True] show ?thesis
          by (auto intro: absent_in_list nodeAt_list)
      next
        case False
        with ListT Some show ?thesis by (auto intro: absent_range)
      qed
    qed
  qed (auto intro: absent_scalar simp: isScalar_def)
qed

text \<open>
  Claim C6. \<open>getValueAtPath\<close> is a total function into the trees: it has no error
  result, and it is defined by recursion on the path. Where the path addresses nothing
  for one of the four reasons of \<open>absentAt\<close> (a segment missing from a map, a segment
  that does not parse against a list, an index out of range, a scalar in the way) the
  result is \<open>GoNil\<close> and there is no node at the path; in every other case the result is
  the node at the path; and whenever there is a node at the path, it is the result.
\<close>

theorem C6_getValueAtPath_total:
  "(absentAt m path \<longrightarrow> getValueAtPath m path = GoNil \<and> \<not> nodeAt m path v) \<and>
   (\<not> absentAt m path \<longrightarrow> nodeAt m path (getValueAtPath m path)) \<and>
   (nodeAt m path v \<longrightarrow> getValueAtPath m path = v)"
  using absentAt_get [of m path] absentAt_not_nodeAt [of m path v]
    absentAt_or_nodeAt [of m path] nodeAt_get [of m path v]
  by blast

theorem C6_getValueAtPath_total_witness:
  "absentAt (MapT [(''spec'', MapT [(''items'', ListT [Str ''a'', Str ''b''] 2)])])
      [''spec'', ''items'', ''5''] \<and>
   getValueAtPath (MapT [(''spec'', MapT [(''items'', ListT [Str ''a'', Str ''b''] 2)])])
      [''spec'', ''items'', ''5''] = GoNil \<and>
   nodeAt (MapT [(''spec'', MapT [(''items'', ListT [Str ''a'', Str ''b''] 2)])])
      [''spec'', ''items'', ''1''] (Str ''b'') \<and>
   getValueAtPath (MapT [(''spec'', MapT [(''items'', ListT [Str ''a'', Str ''b''] 2)])])
      [''spec'', ''items'', ''1''] = Str ''b''"
proof -
  let ?t = "MapT [(''spec'', MapT [(''items'', ListT [Str ''a'', Str ''b''] 2)])]"
  have a1: "absentAt (ListT [Str ''a'', Str ''b''] 2) [''5'']"
    by (rule absent_range [OF Atoi_5]) simp
  have a2: "absentAt (MapT [(''items'', ListT [Str ''a'', Str ''b''] 2)]) [''items'', ''5'']"
    by (rule absent_in_map [OF _ a1]) simp
  have a: "absentAt ?t [''spec'', ''items'', ''5'']"
    by (rule absent_in_map [OF _ a2]) simp
  have g: "getValueAtPath ?t [''spec'', ''items'', ''1''] = Str ''b''"
    by (simp add: Atoi_1)
  have "\<not> absentAt ?t [''spec'', ''items'', ''1'']"
    using C6_getValueAtPath_total [of ?t "[''spec'', ''items'', ''1'']" GoNil] g by auto
  then have n: "nodeAt ?t [''spec'', ''items'', ''1''] (Str ''b'')"
    using C6_getValueAtPath_total [of ?t "[''spec'', ''items'', ''1'']" GoNil] g by auto
  show ?thesis
    using a n g C6_getValueAtPath_total [of ?t "[''spec'', ''items'', ''5'']" GoNil]
    by blast
qed

subsection \<open>Add and replace at a map key\<close>

lemma applyAdd_empty_map: "applyAdd (MapT []) path val = applyReplace (MapT []) path val"
proof (induction path)
  case Nil
  show ?case by simp
next
  case (Cons key rest)
  then show ?case by (cases rest) simp_all
qed

text \<open>
  Claim C7. The final segment of a path addresses a map key when the node that the
  segments before it lead to is a map, or is missing (the operations then create empty
  maps down to it). In both cases, and whenever that node is anything but a list,
  \<open>applyAdd\<close> and \<open>applyReplace\<close> return the same tree for every tree, path and value:
  both store at the key without looking whether it exists. The two differ at a list
  index only.
\<close>

theorem C7_add_replace_same_at_map_key:
  "\<not> isListT (getValueAtPath m (butlast path)) \<Longrightarrow>
   applyAdd m path val = applyReplace m path val"
proof (induction m path val rule: applyAdd.induct)
  case (1 m val)
  show ?case by simp
next
  case (2 m key val)
  then show ?case by (cases m) (simp_all add: isListT_def)
next
  case (3 m key k2 rest val)
  show ?case
  proof (cases m)
    case (MapT kvs)
    show ?thesis
    proof (cases "map_of kvs key")
      case None
      with MapT show ?thesis by (simp add: applyAdd_empty_map)
    next
      case (Some child)
      with MapT 3(2)[OF MapT Some] 3(4) show ?thesis by simp
    qed
  next
    case (ListT xs c)
    show ?thesis
    proof (cases "Atoi key")
      case None
      with ListT show ?thesis by simp
    next
      case (Some idx)
      show ?thesis
      proof (cases "0 \<le> idx \<and> idx < int (length xs)")
        case True
        with ListT Some 3(3)[OF ListT Some True] 3(4) show ?thesis by simp
      next
        case False
        with ListT Some show ?thesis by auto
      qed
    qed
  qed simp_all
qed

theorem C7_add_replace_same_at_map_key_witness:
  "\<not> isListT (getValueAtPath (MapT [(''spec'', MapT [(''replicas'', Num 1)])])
       (butlast [''spec'', ''replicas''])) \<and>
   applyAdd (MapT [(''spec'', MapT [(''replicas'', Num 1)])]) [''spec'', ''replicas''] (Num 3)
     = MapT [(''spec'', MapT [(''replicas'', Num 3)])] \<and>
   applyReplace (MapT [(''spec'', MapT [(''replicas'', Num 1)])]) [''spec'', ''replicas''] (Num 3)
     = MapT [(''spec'', MapT [(''replicas'', Num 3)])]"
proof -
  have h: "\<not> isListT (getValueAtPath (MapT [(''spec'', MapT [(''replicas'', Num 1)])])
       (butlast [''spec'', ''replicas'']))"
    by (simp add: isListT_def)
  have "applyAdd (MapT [(''spec'', MapT [(''replicas'', Num 1)])]) [''spec'', ''replicas''] (Num 3)
     = MapT [(''spec'', MapT [(''replicas'', Num 3)])]"
    by simp
  with h C7_add_replace_same_at_map_key [OF h, of "Num 3"] show ?thesis
    by simp
qed

subsection \<open>Reading back what an operation wrote\<close>

lemma get_add_empty:
  "path \<noteq> [] \<Longrightarrow> getValueAtPath (applyAdd (MapT []) path val) path = val"
proof (induction path)
  case Nil
  then show ?case by simp
next
  case (Cons key rest)
  then show ?case by (cases rest) simp_all
qed

lemma get_replace_empty:
  "path \<noteq> [] \<Longrightarrow> getValueAtPath (applyReplace (MapT []) path val) path = val"
proof (induction path)
  case Nil
  then show ?case by simp
next
  case (Cons key rest)
  then show ?case by (cases rest) simp_all
qed

lemma get_add: "inRange False m path \<Longrightarrow> getValueAtPath (applyAdd m path val) path = val"
proof (induction m path val rule: applyAdd.induct)
  case (1 m val)
  then show ?case by simp
next
  case (2 m key val)
  then show ?case by (cases m) (simp_all add: update_conv')
next
  case (3 m key k2 rest val)
  show ?case
  proof (cases m)
    case (MapT kvs)
    show ?thesis
    proof (cases "map_of kvs key")
      case None
      with MapT have "getValueAtPath (applyAdd m (key # k2 # rest) val) (key # k2 # rest)
          = getValueAtPath (applyAdd (MapT []) (k2 # rest) val) (k2 # rest)"
        by (simp add: update_conv')
      then show ?thesis
        by (simp only: get_add_empty [of "k2 # rest"] list.distinct not_False_eq_True)
    next
      case (Some child)
      with MapT have "getValueAtPath (applyAdd m (key # k2 # rest) val) (key # k2 # rest)
          = getValueAtPath (applyAdd child (k2 # rest) val) (k2 # rest)"
        by (simp add: update_conv')
      moreover have "inRange False child (k2 # rest)" using 3(4) MapT Some by simp
      ultimately show ?thesis using 3(2)[OF MapT Some] by (simp only:)
    qed
  next
    case (ListT xs c)
    show ?thesis
    proof (cases "Atoi key")
      case None
      with ListT 3(4) show ?thesis by simp
    next
      case (Some idx)
      from 3(4) ListT Some have r: "0 \<le> idx \<and> idx < int (length xs)"
        and i: "inRange False (xs ! nat idx) (k2 # rest)" by simp_all
      from r have n: "nat idx < length xs" by linarith
      with r ListT Some have "getValueAtPath (applyAdd m (key # k2 # rest) val) (key # k2 # rest)
          = getValueAtPath (applyAdd (xs ! nat idx) (k2 # rest) val) (k2 # rest)"
        by simp
      then show ?thesis using 3(3)[OF ListT Some r i] by (simp only:)
    qed
  qed (use 3(4) in simp_all)
qed

lemma get_replace: "inRange b m path \<Longrightarrow> getValueAtPath (applyReplace m path val) path = val"
proof (induction m path val rule: applyReplace.induct)
  case (1 m val)
  then show ?case by simp
next
  case (2 m key val)
  then show ?case by (cases m) (auto simp: update_conv' split: option.splits)
next
  case (3 m key k2 rest val)
  show ?case
  proof (cases m)
    case (MapT kvs)
    show ?thesis
    proof (cases "map_of kvs key")
      case None
      with MapT have "getValueAtPath (applyReplace m (key # k2 # rest) val) (key # k2 # rest)
          = getValueAtPath (applyReplace (MapT []) (k2 # rest) val) (k2 # rest)"
        by (simp add: update_conv')
      then show ?thesis
        by (simp only: get_replace_empty [of "k2 # rest"] list.distinct not_False_eq_True)
    next
      case (Some child)
      with MapT have "getValueAtPath (applyReplace m (key # k2 # rest) val) (key # k2 # rest)
          = getValueAtPath (applyReplace child (k2 # rest) val) (k2 # rest)"
        by (simp add: update_conv')
      moreover have "inRange b child (k2 # rest)" using 3(4) MapT Some by simp
      ultimately show ?thesis using 3(2)[OF MapT Some] by (simp only:)
    qed
  next
    case (ListT xs c)
    show ?thesis
    proof (cases "Atoi key")
      case None
      with ListT 3(4) show ?thesis by simp
    next
      case (Some idx)
      from 3(4) ListT Some have r: "0 \<le> idx \<and> idx < int (length xs)"
        and i: "inRange b (xs ! nat idx) (k2 # rest)" by simp_all
      from r have n: "nat idx < length xs" by linarith
      with r ListT Some have
        "getValueAtPath (applyReplace m (key # k2 # rest) val) (key # k2 # rest)
          = getValueAtPath (applyReplace (xs ! nat idx) (k2 # rest) val) (k2 # rest)"
        by simp
      then show ?thesis using 3(3)[OF ListT Some r i] by (simp only:)
    qed
  qed (use 3(4) in simp_all)
qed

lemma get_remove: "inRange False m path \<Longrightarrow> getValueAtPath (applyRemove m path) path = GoNil"
proof (induction m path rule: applyRemove.induct)
  case (1 m)
  then show ?case by simp
next
  case (2 m key)
  then show ?case by (cases m) (simp_all add: delete_conv')
next
  case (3 m key k2 rest)
  show ?case
  proof (cases m)
    case (MapT kvs)
    show ?thesis
    proof (cases "map_of kvs key")
      case None
      with MapT show ?thesis by simp
    next
      case (Some child)
      with MapT have "getValueAtPath (applyRemove m (key # k2 # rest)) (key # k2 # rest)
          = getValueAtPath (applyRemove child (k2 # rest)) (k2 # rest)"
        by (simp add: update_conv')
      moreover have "inRange False child (k2 # rest)" using 3(3) MapT Some by simp
      ultimately show ?thesis using 3(1)[OF MapT Some] by (simp only:)
    qed
  next
    case (ListT xs c)
    show ?thesis
    proof (cases "Atoi key")
      case None
      with ListT 3(3) show ?thesis by simp
    next
      case (Some idx)
      from 3(3) ListT Some have r: "0 \<le> idx \<and> idx < int (length xs)"
        and i: "inRange False (xs ! nat idx) (k2 # rest)" by simp_all
      from r have n: "nat idx < length xs" by linarith
      with r ListT Some have "getValueAtPath (applyRemove m (key # k2 # rest)) (key # k2 # rest)
          = getValueAtPath (applyRemove (xs ! nat idx) (k2 # rest)) (k2 # rest)"
        by simp
      then show ?thesis using 3(2)[OF ListT Some r i] by (simp only:)
    qed
  qed (use 3(3) in simp_all)
qed

text \<open>
  Claim C1, as stated, asks for the post-state of every operation of a list in the tree
  that the whole list leaves. That fails for two in-range operations on one map key: an
  \<^verbatim>\<open>add\<close> of \<^verbatim>\<open>"x"\<close> at \<^verbatim>\<open>/a\<close> followed by a \<^verbatim>\<open>remove\<close> of \<^verbatim>\<open>/a\<close>. Both are applied
  (two records), the resulting tree is the empty map, and reading \<^verbatim>\<open>/a\<close> in it gives
  \<^verbatim>\<open>nil\<close>, not the value that the \<^verbatim>\<open>add\<close> provided.
\<close>

theorem C1_later_operation_overwrites_counterexample:
  "inRange False (MapT []) (parsePath ''/a'') \<and>
   inRange False (MapT [(''a'', Str ''x'')]) (parsePath ''/a'') \<and>
   applyOps ''Deployment/test'' '''' (MapT [])
     [MapT [(''op'', Str ''add''), (''path'', Str ''/a''), (''value'', Str ''x'')],
      MapT [(''op'', Str ''remove''), (''path'', Str ''/a'')]]
   = Inr (MapT [],
       [\<lparr>Resource = ''Deployment/test'', Path = [''a''], Source = '''',
         Original = GoNil, New = Str ''x''\<rparr>,
        \<lparr>Resource = ''Deployment/test'', Path = [''a''], Source = '''',
         Original = Str ''x'', New = GoNil\<rparr>]) \<and>
   getValueAtPath (MapT []) (parsePath ''/a'') = GoNil \<and>
   GoNil \<noteq> Str ''x''"
  by (simp add: applyOp_def parsePath_def Let_def)

text \<open>
  Claim C1, amended. For every tree, every value and every single operation that is in
  range, reading the operation's path in the tree that this operation leaves gives the
  intended post-state: after \<^verbatim>\<open>add\<close> whose last segment is a map key the value; after
  \<^verbatim>\<open>replace\<close> whose last segment is a map key or a list index in \<open>[0, length)\<close> the
  value; after \<^verbatim>\<open>remove\<close> whose last segment is a map key \<open>GoNil\<close>. In a list of
  operations this holds for each operation against the tree as that operation leaves it.
  Nothing is said here about \<^verbatim>\<open>add\<close> and \<^verbatim>\<open>remove\<close> at a list index.
\<close>

theorem C1_post_state_of_each_operation:
  "(inRange False m path \<longrightarrow> getValueAtPath (applyAdd m path val) path = val) \<and>
   (inRange True m path \<longrightarrow> getValueAtPath (applyReplace m path val) path = val) \<and>
   (inRange False m path \<longrightarrow> getValueAtPath (applyRemove m path) path = GoNil)"
  using get_add [of m path val] get_replace [of True m path val] get_remove [of m path]
  by blast

theorem C1_post_state_of_each_operation_witness:
  "inRange False (MapT [(''spec'', MapT [(''replicas'', Num 1)])]) [''spec'', ''replicas''] \<and>
   inRange True (MapT [(''items'', ListT [Str ''a'', Str ''b''] 2)]) [''items'', ''1''] \<and>
   getValueAtPath
     (applyAdd (MapT [(''spec'', MapT [(''replicas'', Num 1)])]) [''spec'', ''replicas''] (Num 3))
     [''spec'', ''replicas''] = Num 3 \<and>
   getValueAtPath
     (applyReplace (MapT [(''items'', ListT [Str ''a'', Str ''b''] 2)]) [''items'', ''1'']
        (Str ''c''))
     [''items'', ''1''] = Str ''c'' \<and>
   getValueAtPath
     (applyRemove (MapT [(''spec'', MapT [(''replicas'', Num 1)])]) [''spec'', ''replicas''])
     [''spec'', ''replicas''] = GoNil"
proof -
  have a: "inRange False (MapT [(''spec'', MapT [(''replicas'', Num 1)])])
      [''spec'', ''replicas'']"
    by simp
  have b: "inRange True (MapT [(''items'', ListT [Str ''a'', Str ''b''] 2)]) [''items'', ''1'']"
    by (simp add: Atoi_1)
  show ?thesis
    using a b
      C1_post_state_of_each_operation
        [of "MapT [(''spec'', MapT [(''replicas'', Num 1)])]" "[''spec'', ''replicas'']" "Num 3"]
      C1_post_state_of_each_operation
        [of "MapT [(''items'', ListT [Str ''a'', Str ''b''] 2)]" "[''items'', ''1'']" "Str ''c''"]
    by blast
qed

subsection \<open>The last segment at a list: the append sentinel and the indices\<close>

lemma applyAdd_sentinel_no_change:
  "Atoi key = Some (- 1) \<Longrightarrow> applyAdd (ListT xs c) [key] val = ListT xs c"
  by simp

lemma get_sentinel_absent:
  "Atoi key = Some (- 1) \<Longrightarrow> getValueAtPath (ListT xs c) (key # rest) = GoNil"
  by simp

lemma applyAdd_index_with_spare_capacity:
  "applyAdd (ListT [Str ''a'', Str ''b'', Str ''c''] 4) [''1''] (Str ''x'')
     = ListT [Str ''a'', Str ''x'', Str ''b''] 4"
  by (simp add: Atoi_1)

lemma applyAdd_index_without_spare_capacity:
  "applyAdd (ListT [Str ''a'', Str ''b''] 2) [''1''] (Str ''x'') = ListT [Str ''a'', Str ''b''] 2"
  by (simp add: Atoi_1)

lemma applyRemove_index_keeps_length:
  "applyRemove (ListT [Str ''a'', Str ''b'', Str ''c''] c) [''0'']
     = ListT [Str ''b'', Str ''c'', Str ''c''] c"
  by (simp add: Atoi_0)

text \<open>
  Claim C2 at the input \<^verbatim>\<open>{items: [1, 2]}\<close> with the operation
  \<^verbatim>\<open>{op: add, path: /items/-1, value: 3}\<close>, for every capacity \<open>c\<close> of the list. The record
  has \<open>Original = GoNil\<close>, as the claim says. The tree comes back as it went in: the list
  still has two elements and the value is not in it, because \<^verbatim>\<open>m = append(m, value)\<close>
  assigns the longer slice to the variable of \<^verbatim>\<open>applyAdd\<close> and to nothing that the tree
  holds. The claim says that the list has three elements with the value last.
\<close>

theorem C2_append_sentinel_leaves_list_unchanged:
  "applyOp ''ConfigMap/test'' '''' (MapT [(''items'', ListT [Num 1, Num 2] c)])
      (MapT [(''op'', Str ''add''), (''path'', Str ''/items/-1''), (''value'', Num 3)])
   = Inr (MapT [(''items'', ListT [Num 1, Num 2] c)],
       [\<lparr>Resource = ''ConfigMap/test'', Path = [''items'', ''-1''], Source = '''',
         Original = GoNil, New = Num 3\<rparr>])"
  by (simp add: applyOp_def parsePath_def Atoi_minus_one Let_def)

subsection \<open>Operations that are not add, replace or remove\<close>

text \<open>
  Claim C10. An operation that is well formed (a map with a string under \<^verbatim>\<open>op\<close> and a
  string under \<^verbatim>\<open>path\<close>) and whose \<^verbatim>\<open>op\<close> is none of \<^verbatim>\<open>add\<close>, \<^verbatim>\<open>replace\<close>, \<^verbatim>\<open>remove\<close>
  returns without a fatal error, with the resource map as it was and with no record; the
  loop goes on with the operations after it as if it had not been there. The functions
  have no channel for a warning.
\<close>

theorem C10_unknown_operation_ignored:
  "map_of opMap ''op'' = Some (Str opType) \<Longrightarrow>
   map_of opMap ''path'' = Some (Str path) \<Longrightarrow>
   opType \<noteq> ''add'' \<Longrightarrow> opType \<noteq> ''replace'' \<Longrightarrow> opType \<noteq> ''remove'' \<Longrightarrow>
   applyOp res src resourceMap (MapT opMap) = Inr (resourceMap, []) \<and>
   applyOps res src resourceMap (MapT opMap # ops) = applyOps res src resourceMap ops"
  by (auto simp: applyOp_def Let_def split: sum.splits)

theorem C10_unknown_operation_ignored_witness:
  "applyOp ''Deployment/test'' '''' (MapT [(''a'', Num 1)])
      (MapT [(''op'', Str ''test''), (''path'', Str ''/a''), (''value'', Num 2)])
     = Inr (MapT [(''a'', Num 1)], []) \<and>
   applyOps ''Deployment/test'' '''' (MapT [(''a'', Num 1)])
      [MapT [(''op'', Str ''test''), (''path'', Str ''/a''), (''value'', Num 2)],
       MapT [(''op'', Str ''replace''), (''path'', Str ''/a''), (''value'', Num 5)]]
     = Inr (MapT [(''a'', Num 5)],
         [\<lparr>Resource = ''Deployment/test'', Path = [''a''], Source = '''',
           Original = Num 1, New = Num 5\<rparr>])"
proof -
  let ?opMap = "[(''op'', Str ''test''), (''path'', Str ''/a''), (''value'', Num 2)]"
  let ?ops = "[MapT [(''op'', Str ''replace''), (''path'', Str ''/a''), (''value'', Num 5)]]"
  have h1: "map_of ?opMap ''op'' = Some (Str ''test'')" by simp
  have h2: "map_of ?opMap ''path'' = Some (Str ''/a'')" by simp
  have h3: "''test'' \<noteq> ''add''" "''test'' \<noteq> ''replace''" "''test'' \<noteq> ''remove''"
    by simp_all
  have e: "applyOps ''Deployment/test'' '''' (MapT [(''a'', Num 1)]) ?ops
     = Inr (MapT [(''a'', Num 5)],
         [\<lparr>Resource = ''Deployment/test'', Path = [''a''], Source = '''',
           Original = Num 1, New = Num 5\<rparr>])"
    by (simp add: applyOp_def parsePath_def Let_def)
  from C10_unknown_operation_ignored
    [OF h1 h2 h3, of "''Deployment/test''" "''''" "MapT [(''a'', Num 1)]" ?ops] e
  show ?thesis by (simp only:)
qed

subsection \<open>The range over a map\<close>

lemma rangeMap_mem: "(k, v) \<in> set (rangeMap order m) \<Longrightarrow> map_of m k = Some v"
  by (auto simp: rangeMap_def split: option.splits)

lemma keys_concat:
  "map fst (concat (map (\<lambda>k. case map_of m k of None \<Rightarrow> [] | Some v \<Rightarrow> [(k, v)]) ks))
   = filter (\<lambda>k. map_of m k \<noteq> None) ks"
  by (induction ks) (auto split: option.splits)

lemma rangeMap_keys:
  "map fst (rangeMap order m) = filter (\<lambda>k. map_of m k \<noteq> None) (order (map fst m))"
  unfolding rangeMap_def by (rule keys_concat)

lemma validOrder_set: "validOrder order m \<Longrightarrow> set (order (map fst m)) = set (map fst m)"
  unfolding validOrder_def by (metis set_mset_mset)

lemma validOrder_distinct:
  "validOrder order m \<Longrightarrow> distinct (map fst m) \<Longrightarrow> distinct (order (map fst m))"
  unfolding validOrder_def by (metis mset_eq_imp_distinct_iff)

lemma rangeMap_keys_valid:
  assumes "validOrder order m"
  shows "map fst (rangeMap order m) = order (map fst m)"
proof -
  from validOrder_set [OF assms] have "\<forall>k \<in> set (order (map fst m)). map_of m k \<noteq> None"
    by (auto simp: map_of_eq_None_iff)
  then show ?thesis unfolding rangeMap_keys by (simp add: filter_id_conv)
qed

lemma rangeMap_lookup:
  assumes "validOrder order m" and "distinct (map fst m)"
  shows "map_of (rangeMap order m) k = map_of m k"
proof (cases "map_of (rangeMap order m) k")
  case None
  then have "k \<notin> set (map fst (rangeMap order m))" by (simp add: map_of_eq_None_iff)
  with rangeMap_keys_valid [OF assms(1)] have "k \<notin> set (order (map fst m))" by simp
  with validOrder_set [OF assms(1)] have "k \<notin> set (map fst m)" by simp
  then have "map_of m k = None" by (simp add: map_of_eq_None_iff)
  with None show ?thesis by simp
next
  case (Some v)
  then have "(k, v) \<in> set (rangeMap order m)" by (rule map_of_SomeD)
  with Some show ?thesis by (simp add: rangeMap_mem)
qed

subsection \<open>The strategic merge\<close>

lemma mergeMap_Cons:
  "mergeMap g dst ((key, srcVal) # src) =
     mergeMap g (AList.update key (mergedValue g (map_of dst key) srcVal) dst) src"
  by (auto simp: mergedValue_def split: option.splits tree.splits)

lemma mergeMap_lookup:
  "distinct (map fst src) \<Longrightarrow>
   map_of (mergeMap g dst src) k =
     (case map_of src k of
        None \<Rightarrow> map_of dst k
      | Some srcVal \<Rightarrow> Some (mergedValue g (map_of dst k) srcVal))"
proof (induction src arbitrary: dst)
  case Nil
  show ?case by simp
next
  case (Cons e src)
  obtain key srcVal where e: "e = (key, srcVal)" by (cases e)
  from Cons.prems e have d: "distinct (map fst src)" and n: "key \<notin> fst ` set src" by auto
  from n have none: "map_of src key = None" by (simp add: map_of_eq_None_iff)
  show ?case
    unfolding e mergeMap_Cons Cons.IH [OF d]
    using none by (auto simp: update_conv' split: option.splits)
qed

lemma mergeMap_keys: "fst ` set (mergeMap g dst src) = fst ` set dst \<union> fst ` set src"
proof (induction src arbitrary: dst)
  case Nil
  show ?case by simp
next
  case (Cons e src)
  obtain key srcVal where e: "e = (key, srcVal)" by (cases e)
  show ?case unfolding e mergeMap_Cons Cons.IH by (auto simp: dom_update)
qed

lemma mergeMap_distinct: "distinct (map fst dst) \<Longrightarrow> distinct (map fst (mergeMap g dst src))"
proof (induction src arbitrary: dst)
  case Nil
  then show ?case by simp
next
  case (Cons e src)
  obtain key srcVal where e: "e = (key, srcVal)" by (cases e)
  show ?case unfolding e mergeMap_Cons by (rule Cons.IH) (simp add: distinct_update Cons.prems)
qed

text \<open>
  Claim C5. For every key of the patch map (a Go map: its keys are distinct), whatever
  the destination holds: when destination and patch both hold maps at the key, the
  result holds the recursive merge of the two there, whose keys are the union of
  theirs; when both hold lists, the result holds under the key a list whose elements
  are those of the destination followed by those of the patch; in every other
  combination (the key missing from the destination included) the result holds the patch
  value. So inside a merged map a patch leaf replaces the destination's.
\<close>

theorem C5_mergeMap_by_key:
  assumes "distinct (map fst src)" and "map_of src key = Some srcVal"
  shows "(\<forall>d s. map_of dst key = Some (MapT d) \<and> srcVal = MapT s \<longrightarrow>
            map_of (mergeMap g dst src) key = Some (MapT (mergeMap g d s)) \<and>
            fst ` set (mergeMap g d s) = fst ` set d \<union> fst ` set s) \<and>
         (\<forall>d dc s sc. map_of dst key = Some (ListT d dc) \<and> srcVal = ListT s sc \<longrightarrow>
            map_of (mergeMap g dst src) key = Some (appendSlice g d dc s) \<and>
            listElems (appendSlice g d dc s) = d @ s) \<and>
         (\<not> bothMaps (map_of dst key) srcVal \<and> \<not> bothLists (map_of dst key) srcVal \<longrightarrow>
            map_of (mergeMap g dst src) key = Some srcVal)"
  using assms
  by (auto simp: mergeMap_lookup mergeMap_keys mergedValue_def bothMaps_def bothLists_def
        listElems_def appendSlice_def split: option.splits tree.splits)

theorem C5_mergeMap_by_key_witness:
  "distinct (map fst
     [(''metadata'', MapT [(''labels'', Str ''x'')]), (''args'', ListT [Str ''b''] 1),
      (''replicas'', Num 3)]) \<and>
   map_of (mergeMap (\<lambda>c n. n)
       [(''metadata'', MapT [(''name'', Str ''test'')]), (''args'', ListT [Str ''a''] 1),
        (''replicas'', Num 1)]
       [(''metadata'', MapT [(''labels'', Str ''x'')]), (''args'', ListT [Str ''b''] 1),
        (''replicas'', Num 3)]) ''metadata''
     = Some (MapT [(''name'', Str ''test''), (''labels'', Str ''x'')]) \<and>
   map_of (mergeMap (\<lambda>c n. n)
       [(''metadata'', MapT [(''name'', Str ''test'')]), (''args'', ListT [Str ''a''] 1),
        (''replicas'', Num 1)]
       [(''metadata'', MapT [(''labels'', Str ''x'')]), (''args'', ListT [Str ''b''] 1),
        (''replicas'', Num 3)]) ''args''
     = Some (ListT [Str ''a'', Str ''b''] 2) \<and>
   map_of (mergeMap (\<lambda>c n. n)
       [(''metadata'', MapT [(''name'', Str ''test'')]), (''args'', ListT [Str ''a''] 1),
        (''replicas'', Num 1)]
       [(''metadata'', MapT [(''labels'', Str ''x'')]), (''args'', ListT [Str ''b''] 1),
        (''replicas'', Num 3)]) ''replicas''
     = Some (Num 3)"
proof -
  let ?dst = "[(''metadata'', MapT [(''name'', Str ''test'')]), (''args'', ListT [Str ''a''] 1),
        (''replicas'', Num 1)]"
  let ?src = "[(''metadata'', MapT [(''labels'', Str ''x'')]), (''args'', ListT [Str ''b''] 1),
        (''replicas'', Num 3)]"
  have d: "distinct (map fst ?src)" by simp
  have k1: "map_of ?src ''metadata'' = Some (MapT [(''labels'', Str ''x'')])" by simp
  have k2: "map_of ?src ''args'' = Some (ListT [Str ''b''] 1)" by simp
  have k3: "map_of ?src ''replicas'' = Some (Num 3)" by simp
  have 1: "map_of (mergeMap (\<lambda>c n. n) ?dst ?src) ''metadata''
      = Some (MapT [(''name'', Str ''test''), (''labels'', Str ''x'')])"
    using C5_mergeMap_by_key [OF d k1, of ?dst "\<lambda>c n. n"] by simp
  have 2: "map_of (mergeMap (\<lambda>c n. n) ?dst ?src) ''args'' = Some (ListT [Str ''a'', Str ''b''] 2)"
    using C5_mergeMap_by_key [OF d k2, of ?dst "\<lambda>c n. n"] by (simp add: appendSlice_def)
  have 3: "map_of (mergeMap (\<lambda>c n. n) ?dst ?src) ''replicas'' = Some (Num 3)"
    using C5_mergeMap_by_key [OF d k3, of ?dst "\<lambda>c n. n"]
    by (simp add: bothMaps_def bothLists_def)
  from d 1 2 3 show ?thesis by (simp only: simp_thms)
qed

subsection \<open>The records of a strategic merge\<close>

lemma deepEqual_deepCopy: "deepEqual (deepCopyValue a) b = deepEqual a b"
proof (induction a arbitrary: b)
  case (MapT kvs)
  show ?case
  proof (cases b)
    case b: (MapT bs)
    let ?Q = "\<lambda>(k, v). case map_of bs k of None \<Rightarrow> False | Some w \<Rightarrow> deepEqual v w"
    let ?f = "\<lambda>kv. (fst kv, deepCopyValue (snd kv))"
    have "list_all ?Q (map ?f kvs) = list_all (?Q \<circ> ?f) kvs"
      by (rule list.pred_map)
    also have "\<dots> = list_all ?Q kvs"
    proof (rule list_all_cong [OF refl])
      fix x assume x: "x \<in> set kvs"
      obtain k v where kv: "x = (k, v)" by (cases x)
      have "deepEqual (deepCopyValue v) w = deepEqual v w" for w
        using MapT.IH [of x v w] x kv by simp
      with kv show "(?Q \<circ> ?f) x = ?Q x" by (simp split: option.splits)
    qed
    finally show ?thesis using b by simp
  qed simp_all
next
  case (ListT xs c)
  show ?case
  proof (cases b)
    case b: (ListT ys d)
    have "list_all2 deepEqual (map deepCopyValue xs) ys
        = list_all2 (\<lambda>x. deepEqual (deepCopyValue x)) xs ys"
      by (rule list_all2_map1)
    also have "\<dots> = list_all2 deepEqual xs ys"
      by (rule list.rel_cong [OF refl refl]) (simp add: ListT.IH)
    finally show ?thesis using b by simp
  qed simp_all
qed (cases b; simp)+

lemma map_of_originalState:
  "map_of (map (\<lambda>kv. (fst kv, deepCopyValue (snd kv))) m) k = map_option deepCopyValue (map_of m k)"
  by (induction m) auto

lemma recordRemoved_none:
  "\<forall>e \<in> set es. map_of m (fst e) \<noteq> None \<Longrightarrow> recordRemoved res src m es = []"
  by (induction es) (auto split: option.splits)

lemma recordChanged_count:
  "length (filter (\<lambda>r. Path r = [k]) (recordChanged res src orig es)) =
   length (filter (\<lambda>(k', v). k' = k \<and>
              (case map_of orig k' of None \<Rightarrow> True | Some old \<Rightarrow> \<not> deepEqual old v)) es)"
proof (induction es)
  case Nil
  show ?case by simp
next
  case (Cons e es)
  obtain k' v where e: "e = (k', v)" by (cases e)
  show ?case unfolding e by (cases "map_of orig k'") (simp_all add: Cons.IH)
qed

lemma recordChanged_mem:
  "r \<in> set (recordChanged res src orig es) \<Longrightarrow>
   \<exists>k v. (k, v) \<in> set es \<and> Path r = [k] \<and> New r = v \<and> Resource r = res \<and> Source r = src \<and>
         Original r = (case map_of orig k of None \<Rightarrow> GoNil | Some old \<Rightarrow> old)"
proof (induction es)
  case Nil
  then show ?case by simp
next
  case (Cons e es)
  obtain k' v' where e: "e = (k', v')" by (cases e)
  from Cons.prems e consider
    (first) "r \<in> set (case map_of orig k' of
        None \<Rightarrow>
          [\<lparr>Resource = res, Path = [k'], Source = src, Original = GoNil, New = v'\<rparr>]
      | Some oldVal \<Rightarrow>
          if \<not> deepEqual oldVal v'
          then [\<lparr>Resource = res, Path = [k'], Source = src, Original = oldVal, New = v'\<rparr>]
          else [])"
    | (later) "r \<in> set (recordChanged res src orig es)"
    by auto
  then show ?case
  proof cases
    case first
    then have "Path r = [k'] \<and> New r = v' \<and> Resource r = res \<and> Source r = src \<and>
        Original r = (case map_of orig k' of None \<Rightarrow> GoNil | Some old \<Rightarrow> old)"
      by (auto split: option.splits if_splits)
    then show ?thesis unfolding e by (intro exI [of _ k'] exI [of _ v']) simp
  next
    case later
    from Cons.IH [OF later] show ?thesis by auto
  qed
qed

lemma count_distinct_keys:
  "distinct (map fst es) \<Longrightarrow>
   length (filter (\<lambda>(k', v). k' = k \<and> P k' v) es) =
     (case map_of es k of None \<Rightarrow> 0 | Some v \<Rightarrow> if P k v then 1 else 0)"
proof (induction es)
  case Nil
  show ?case by simp
next
  case (Cons e es)
  obtain k' v' where e: "e = (k', v')" by (cases e)
  show ?case
  proof (cases "k' = k")
    case True
    with Cons.prems e have "k \<notin> fst ` set es" by auto
    then have "filter (\<lambda>(k', v). k' = k \<and> P k' v) es = []"
      by (force simp: filter_empty_conv)
    with True e show ?thesis by simp
  next
    case False
    with Cons e show ?thesis by simp
  qed
qed

text \<open>
  Claim C3. For every strategic merge of a patch map into a resource map (a Go map: its
  keys are distinct), in whatever order the \<^verbatim>\<open>range\<close> visits the merged map: the records
  appended hold exactly one record with path \<open>[k]\<close> for every top-level key \<open>k\<close> that
  differs between the map before and the map after the merge, and none for any other
  \<open>k\<close>; every record has a path of the single top-level key, carries the resource key and
  the patch's source, has as \<open>Original\<close> the copy (\<^verbatim>\<open>deepCopyValue\<close>) of the whole value
  under that key before the merge (\<open>GoNil\<close> when the key was not there) and as \<open>New\<close> the
  whole value under that key after the merge. So a difference nested inside a merged
  sub-map adds no record of its own.
\<close>

theorem C3_merge_records_top_level:
  assumes d: "distinct (map fst resourceMap)"
    and v: "validOrder order (mergeMap g resourceMap patchContent)"
  shows "fst (mergeChanges g order res src resourceMap patchContent)
           = mergeMap g resourceMap patchContent \<and>
         (\<forall>k. length (filter (\<lambda>r. Path r = [k])
                  (snd (mergeChanges g order res src resourceMap patchContent)))
              = (if topLevelDiffers resourceMap (mergeMap g resourceMap patchContent) k
                 then 1 else 0)) \<and>
         (\<forall>r \<in> set (snd (mergeChanges g order res src resourceMap patchContent)).
            \<exists>k. Path r = [k] \<and> Resource r = res \<and> Source r = src \<and>
                Original r = (case map_of resourceMap k of None \<Rightarrow> GoNil
                              | Some old \<Rightarrow> deepCopyValue old) \<and>
                map_of (mergeMap g resourceMap patchContent) k = Some (New r))"
proof -
  let ?merged = "mergeMap g resourceMap patchContent"
  let ?orig = "map (\<lambda>kv. (fst kv, deepCopyValue (snd kv))) resourceMap"
  let ?es = "rangeMap order ?merged"
  have dm: "distinct (map fst ?merged)" using d by (rule mergeMap_distinct)
  have removed: "recordRemoved res src ?merged (rangeMap order ?orig) = []"
  proof (rule recordRemoved_none, rule ballI)
    fix e assume e: "e \<in> set (rangeMap order ?orig)"
    obtain k old where ko: "e = (k, old)" by (cases e)
    from e ko have "map_of ?orig k = Some old" by (simp add: rangeMap_mem)
    then have "map_of resourceMap k \<noteq> None" by (auto simp: map_of_originalState)
    then have "k \<in> fst ` set resourceMap" by (simp add: map_of_eq_None_iff)
    then have "k \<in> fst ` set ?merged" by (simp add: mergeMap_keys)
    then have "map_of ?merged k \<noteq> None" by (metis map_of_eq_None_iff)
    with ko show "map_of ?merged (fst e) \<noteq> None" by simp
  qed
  have recs: "snd (mergeChanges g order res src resourceMap patchContent)
      = recordChanged res src ?orig ?es"
    by (simp add: mergeChanges_def Let_def removed)
  have des: "distinct (map fst ?es)"
    unfolding rangeMap_keys_valid [OF v] using v dm by (rule validOrder_distinct)
  have sub: "map_of resourceMap k = None" if "map_of ?merged k = None" for k
  proof -
    from that have "k \<notin> fst ` set ?merged" by (metis map_of_eq_None_iff)
    then have "k \<notin> fst ` set resourceMap" by (simp add: mergeMap_keys)
    then show ?thesis by (metis map_of_eq_None_iff)
  qed
  have count: "length (filter (\<lambda>r. Path r = [k]) (recordChanged res src ?orig ?es))
      = (if topLevelDiffers resourceMap ?merged k then 1 else 0)" for k
    unfolding recordChanged_count count_distinct_keys [OF des] rangeMap_lookup [OF v dm]
    using sub [of k]
    by (auto simp: topLevelDiffers_def map_of_originalState deepEqual_deepCopy
          split: option.splits)
  have mem: "\<exists>k. Path r = [k] \<and> Resource r = res \<and> Source r = src \<and>
                Original r = (case map_of resourceMap k of None \<Rightarrow> GoNil
                              | Some old \<Rightarrow> deepCopyValue old) \<and>
                map_of ?merged k = Some (New r)"
    if "r \<in> set (recordChanged res src ?orig ?es)" for r
  proof -
    from recordChanged_mem [OF that] obtain k v where
      kv: "(k, v) \<in> set ?es" "Path r = [k]" "New r = v" "Resource r = res" "Source r = src"
        "Original r = (case map_of ?orig k of None \<Rightarrow> GoNil | Some old \<Rightarrow> old)"
      by blast
    from kv(1) have "map_of ?merged k = Some v" by (rule rangeMap_mem)
    with kv show ?thesis
      by (auto simp: map_of_originalState split: option.splits)
  qed
  show ?thesis
    unfolding recs using count mem by (simp add: mergeChanges_def Let_def)
qed


theorem C3_merge_records_top_level_witness:
  "distinct (map fst
     [(''kind'', Str ''Deployment''),
      (''spec'', MapT [(''replicas'', Num 1), (''paused'', Bool False)])]) \<and>
   validOrder (\<lambda>ks. ks)
     (mergeMap (\<lambda>c n. n)
        [(''kind'', Str ''Deployment''),
         (''spec'', MapT [(''replicas'', Num 1), (''paused'', Bool False)])]
        [(''spec'', MapT [(''replicas'', Num 3), (''paused'', Bool True)])]) \<and>
   snd (mergeChanges (\<lambda>c n. n) (\<lambda>ks. ks) ''Deployment/test'' ''patches/p.yaml''
        [(''kind'', Str ''Deployment''),
         (''spec'', MapT [(''replicas'', Num 1), (''paused'', Bool False)])]
        [(''spec'', MapT [(''replicas'', Num 3), (''paused'', Bool True)])])
     = [\<lparr>Resource = ''Deployment/test'', Path = [''spec''], Source = ''patches/p.yaml'',
          Original = MapT [(''replicas'', Num 1), (''paused'', Bool False)],
          New = MapT [(''replicas'', Num 3), (''paused'', Bool True)]\<rparr>] \<and>
   length (filter (\<lambda>r. Path r = [''spec''])
     (snd (mergeChanges (\<lambda>c n. n) (\<lambda>ks. ks) ''Deployment/test'' ''patches/p.yaml''
        [(''kind'', Str ''Deployment''),
         (''spec'', MapT [(''replicas'', Num 1), (''paused'', Bool False)])]
        [(''spec'', MapT [(''replicas'', Num 3), (''paused'', Bool True)])]))) = 1 \<and>
   length (filter (\<lambda>r. Path r = [''kind''])
     (snd (mergeChanges (\<lambda>c n. n) (\<lambda>ks. ks) ''Deployment/test'' ''patches/p.yaml''
        [(''kind'', Str ''Deployment''),
         (''spec'', MapT [(''replicas'', Num 1), (''paused'', Bool False)])]
        [(''spec'', MapT [(''replicas'', Num 3), (''paused'', Bool True)])]))) = 0"
proof -
  let ?m = "[(''kind'', Str ''Deployment''),
         (''spec'', MapT [(''replicas'', Num 1), (''paused'', Bool False)])]"
  let ?p = "[(''spec'', MapT [(''replicas'', Num 3), (''paused'', Bool True)])]"
  let ?recs = "snd (mergeChanges (\<lambda>c n. n) (\<lambda>ks. ks) ''Deployment/test'' ''patches/p.yaml''
        ?m ?p)"
  have d: "distinct (map fst ?m)" by simp
  have v: "validOrder (\<lambda>ks. ks) (mergeMap (\<lambda>c n. n) ?m ?p)" by (simp add: validOrder_def)
  have e: "?recs
     = [\<lparr>Resource = ''Deployment/test'', Path = [''spec''], Source = ''patches/p.yaml'',
          Original = MapT [(''replicas'', Num 1), (''paused'', Bool False)],
          New = MapT [(''replicas'', Num 3), (''paused'', Bool True)]\<rparr>]"
    by (simp add: mergeChanges_def rangeMap_def Let_def)
  have t1: "topLevelDiffers ?m (mergeMap (\<lambda>c n. n) ?m ?p) ''spec''"
    by (simp add: topLevelDiffers_def)
  have t2: "\<not> topLevelDiffers ?m (mergeMap (\<lambda>c n. n) ?m ?p) ''kind''"
    by (simp add: topLevelDiffers_def)
  note t = C3_merge_records_top_level
    [OF d v, where res = "''Deployment/test''" and src = "''patches/p.yaml''"]
  from t t1 have c1: "length (filter (\<lambda>r. Path r = [''spec'']) ?recs) = 1" by presburger
  from t t2 have c2: "length (filter (\<lambda>r. Path r = [''kind'']) ?recs) = 0" by presburger
  from d v e c1 c2 show ?thesis by (simp only: simp_thms)
qed

subsection \<open>A patch whose target is not in the index\<close>

lemma findTarget_noMatch:
  assumes nm: "noMatch allResources target"
  shows "findTarget order allResources target = None"
proof (cases "Name target = ''''")
  case True
  have "\<not> HasPrefix k (Kind target @ ''/'')"
    if "(k, v) \<in> set (rangeMap order allResources)" for k v
  proof -
    from that have "(k, v) \<in> set allResources" by (auto dest: rangeMap_mem map_of_SomeD)
    with nm True show ?thesis by (auto simp: noMatch_def list_all_iff)
  qed
  then have "filter (\<lambda>(key, res). HasPrefix key (Kind target @ ''/''))
      (rangeMap order allResources) = []"
    by (auto simp: filter_empty_conv)
  with True show ?thesis by (simp add: findTarget_def)
next
  case False
  with nm show ?thesis by (simp add: findTarget_def noMatch_def)
qed

text \<open>
  Claim C8. A patch whose target matches no entry of the resource index (no key
  \<^verbatim>\<open>kind/name\<close>, or no key with the prefix \<^verbatim>\<open>kind/\<close> when the name is empty) does not
  abort the run: its turn of the loop returns the state with one warning added and the
  change log as it was, and the run over the patch and the patches after it is the run
  over the patches after it from that state. The resource index is an argument that
  every turn reads and none returns changed, so no resource tree is modified.
\<close>

theorem C8_unknown_target_skipped:
  "patchTarget patch = Some target \<Longrightarrow> noMatch allResources target \<Longrightarrow>
   processPatch env allResources patch st =
     Inr (st\<lparr>warnings := warnings st @
            [''Warning: No matching resource found for patch target'']\<rparr>) \<and>
   fieldSources (st\<lparr>warnings := warnings st @
            [''Warning: No matching resource found for patch target'']\<rparr>) = fieldSources st \<and>
   processPatches env allResources (patch # rest) st =
     processPatches env allResources rest
       (st\<lparr>warnings := warnings st @
            [''Warning: No matching resource found for patch target'']\<rparr>)"
  by (simp add: processPatch_def findTarget_noMatch)

theorem C8_unknown_target_skipped_witness:
  "noMatch
     [(''Deployment/test'',
       \<lparr>GetKind = ''Deployment'', GetName = ''test'',
         AsMap = [(''spec'', MapT [(''replicas'', Num 1)])]\<rparr>)]
     \<lparr>Kind = ''Service'', Name = ''web''\<rparr> \<and>
   processPatches exampleEnv
     [(''Deployment/test'',
       \<lparr>GetKind = ''Deployment'', GetName = ''test'',
         AsMap = [(''spec'', MapT [(''replicas'', Num 1)])]\<rparr>)]
     [\<lparr>patchPath = '''', patchPatch = ''spec: {replicas: 3}'',
        patchTarget = Some \<lparr>Kind = ''Service'', Name = ''web''\<rparr>\<rparr>,
      \<lparr>patchPath = '''', patchPatch = ''spec: {replicas: 3}'',
        patchTarget = Some \<lparr>Kind = ''Deployment'', Name = ''test''\<rparr>\<rparr>]
     \<lparr>fieldSources = [], warnings = []\<rparr>
   = Inr \<lparr>fieldSources =
            [\<lparr>Resource = ''Deployment/test'', Path = [''spec''], Source = '''',
              Original = MapT [(''replicas'', Num 1)], New = MapT [(''replicas'', Num 3)]\<rparr>],
          warnings = [''Warning: No matching resource found for patch target'']\<rparr>"
proof -
  let ?idx = "[(''Deployment/test'',
       \<lparr>GetKind = ''Deployment'', GetName = ''test'',
         AsMap = [(''spec'', MapT [(''replicas'', Num 1)])]\<rparr>)]"
  let ?p1 = "\<lparr>patchPath = '''', patchPatch = ''spec: {replicas: 3}'',
        patchTarget = Some \<lparr>Kind = ''Service'', Name = ''web''\<rparr>\<rparr>"
  let ?p2 = "\<lparr>patchPath = '''', patchPatch = ''spec: {replicas: 3}'',
        patchTarget = Some \<lparr>Kind = ''Deployment'', Name = ''test''\<rparr>\<rparr>"
  have t: "patchTarget ?p1 = Some \<lparr>Kind = ''Service'', Name = ''web''\<rparr>" by simp
  have n: "noMatch ?idx \<lparr>Kind = ''Service'', Name = ''web''\<rparr>" by (simp add: noMatch_def)
  have e: "processPatches exampleEnv ?idx [?p2]
      \<lparr>fieldSources = [],
        warnings = [''Warning: No matching resource found for patch target'']\<rparr>
    = Inr \<lparr>fieldSources =
            [\<lparr>Resource = ''Deployment/test'', Path = [''spec''], Source = '''',
              Original = MapT [(''replicas'', Num 1)], New = MapT [(''replicas'', Num 3)]\<rparr>],
          warnings = [''Warning: No matching resource found for patch target'']\<rparr>"
    by (simp add: exampleEnv_def processPatch_def findTarget_def applyPatchContent_def
          mergeChanges_def rangeMap_def Let_def)
  from C8_unknown_target_skipped [OF t n, where env = exampleEnv and rest = "[?p2]"
      and st = "\<lparr>fieldSources = [], warnings = []\<rparr>"] e n
  show ?thesis by simp
qed

subsection \<open>The groups of the report\<close>

lemma groupChanges_keys:
  "fst ` set (groupChanges cs rc) = fst ` set rc \<union> Resource ` set cs"
proof (induction cs arbitrary: rc)
  case Nil
  show ?case by simp
next
  case (Cons s cs)
  show ?case by (simp add: Cons.IH dom_update)
qed

lemma groupChanges_distinct:
  "distinct (map fst rc) \<Longrightarrow> distinct (map fst (groupChanges cs rc))"
  by (induction cs arbitrary: rc) (auto simp: distinct_update)

lemma groupChanges_lookup:
  "map_of (groupChanges cs rc) k =
     (if k \<in> fst ` set rc \<union> Resource ` set cs
      then Some ((case map_of rc k of None \<Rightarrow> [] | Some x \<Rightarrow> x)
                 @ filter (\<lambda>s. Resource s = k) cs)
      else None)"
proof (induction cs arbitrary: rc)
  case Nil
  show ?case by (auto simp: map_of_eq_None_iff split: option.splits)
next
  case (Cons s cs)
  have "map_of (groupChanges (s # cs) rc) k =
     map_of (groupChanges cs (AList.update (Resource s)
          ((case map_of rc (Resource s) of None \<Rightarrow> [] | Some cs \<Rightarrow> cs) @ [s]) rc)) k"
    by simp
  also have "\<dots> = (if k \<in> fst ` set rc \<union> Resource ` set (s # cs)
      then Some ((case map_of rc k of None \<Rightarrow> [] | Some x \<Rightarrow> x)
                 @ filter (\<lambda>s. Resource s = k) (s # cs))
      else None)"
    unfolding Cons.IH
    by (auto simp: update_conv' dom_update)
  finally show ?case .
qed

text \<open>
  Claim C9, as stated, fixes the order of the groups: the order in which the resource
  keys are first seen in the change log. The groups are printed by a \<^verbatim>\<open>range\<close> over the
  map \<^verbatim>\<open>resourceChanges\<close>, and the language leaves the order of that visit open. For a
  log with a record of \<^verbatim>\<open>Deployment/a\<close> followed by one of \<^verbatim>\<open>Service/b\<close>, the visit that takes
  the keys in reverse is a rearrangement of the keys like any other, and it prints the
  group of \<^verbatim>\<open>Service/b\<close> first.
\<close>

theorem C9_groups_not_in_first_seen_order_counterexample:
  "validOrder rev
     (groupChanges
        [\<lparr>Resource = ''Deployment/a'', Path = [''spec''], Source = '''',
           Original = GoNil, New = Num 1\<rparr>,
         \<lparr>Resource = ''Service/b'', Path = [''spec''], Source = '''',
           Original = GoNil, New = Num 2\<rparr>] []) \<and>
   firstSeen
     [\<lparr>Resource = ''Deployment/a'', Path = [''spec''], Source = '''',
        Original = GoNil, New = Num 1\<rparr>,
      \<lparr>Resource = ''Service/b'', Path = [''spec''], Source = '''',
        Original = GoNil, New = Num 2\<rparr>]
     = [''Deployment/a'', ''Service/b''] \<and>
   map fst (printedGroups rev
     [\<lparr>Resource = ''Deployment/a'', Path = [''spec''], Source = '''',
        Original = GoNil, New = Num 1\<rparr>,
      \<lparr>Resource = ''Service/b'', Path = [''spec''], Source = '''',
        Original = GoNil, New = Num 2\<rparr>])
     = [''Service/b'', ''Deployment/a'']"
  by (simp add: validOrder_def printedGroups_def rangeMap_def)

text \<open>
  Claim C9, amended. The records of the change log are grouped by resource key: in
  whatever order the \<^verbatim>\<open>range\<close> over the grouping map visits it, every resource key of the
  log heads exactly one printed group and no other key heads one, a group holds exactly
  the records of its resource in the order of the log, and the groups come in the order
  of that visit, which the language does not specify.
\<close>

theorem C9_groups_by_resource:
  assumes "validOrder order (groupChanges changes [])"
  shows "distinct (map fst (printedGroups order changes)) \<and>
     set (map fst (printedGroups order changes)) = Resource ` set changes \<and>
     map fst (printedGroups order changes) = order (map fst (groupChanges changes [])) \<and>
     (\<forall>(k, cs) \<in> set (printedGroups order changes).
        cs = filter (\<lambda>s. Resource s = k) changes)"
proof -
  let ?m = "groupChanges changes []"
  have d: "distinct (map fst ?m)" by (rule groupChanges_distinct) simp
  have k: "map fst (printedGroups order changes) = order (map fst ?m)"
    unfolding printedGroups_def by (rule rangeMap_keys_valid [OF assms])
  have 1: "distinct (order (map fst ?m))" using assms d by (rule validOrder_distinct)
  have "set (order (map fst ?m)) = set (map fst ?m)" using assms by (rule validOrder_set)
  then have 2: "set (order (map fst ?m)) = Resource ` set changes"
    using groupChanges_keys [of changes "[]"] by simp
  have 3: "cs = filter (\<lambda>s. Resource s = k) changes"
    if "(k, cs) \<in> set (printedGroups order changes)" for k cs
  proof -
    from that have "map_of ?m k = Some cs" unfolding printedGroups_def by (rule rangeMap_mem)
    then show ?thesis by (simp add: groupChanges_lookup split: if_splits)
  qed
  from 1 2 3 k show ?thesis by auto
qed

theorem C9_groups_by_resource_witness:
  "validOrder rev
     (groupChanges
        [\<lparr>Resource = ''Deployment/a'', Path = [''spec''], Source = '''',
           Original = GoNil, New = Num 1\<rparr>,
         \<lparr>Resource = ''Service/b'', Path = [''spec''], Source = '''',
           Original = GoNil, New = Num 2\<rparr>,
         \<lparr>Resource = ''Deployment/a'', Path = [''kind''], Source = '''',
           Original = GoNil, New = Num 3\<rparr>] []) \<and>
   printedGroups rev
     [\<lparr>Resource = ''Deployment/a'', Path = [''spec''], Source = '''',
        Original = GoNil, New = Num 1\<rparr>,
      \<lparr>Resource = ''Service/b'', Path = [''spec''], Source = '''',
        Original = GoNil, New = Num 2\<rparr>,
      \<lparr>Resource = ''Deployment/a'', Path = [''kind''], Source = '''',
        Original = GoNil, New = Num 3\<rparr>]
     = [(''Service/b'',
         [\<lparr>Resource = ''Service/b'', Path = [''spec''], Source = '''',
            Original = GoNil, New = Num 2\<rparr>]),
        (''Deployment/a'',
         [\<lparr>Resource = ''Deployment/a'', Path = [''spec''], Source = '''',
            Original = GoNil, New = Num 1\<rparr>,
          \<lparr>Resource = ''Deployment/a'', Path = [''kind''], Source = '''',
            Original = GoNil, New = Num 3\<rparr>])] \<and>
   distinct (map fst (printedGroups rev
     [\<lparr>Resource = ''Deployment/a'', Path = [''spec''], Source = '''',
        Original = GoNil, New = Num 1\<rparr>,
      \<lparr>Resource = ''Service/b'', Path = [''spec''], Source = '''',
        Original = GoNil, New = Num 2\<rparr>,
      \<lparr>Resource = ''Deployment/a'', Path = [''kind''], Source = '''',
        Original = GoNil, New = Num 3\<rparr>]))"
proof -
  let ?log = "[\<lparr>Resource = ''Deployment/a'', Path = [''spec''], Source = '''',
        Original = GoNil, New = Num 1\<rparr>,
      \<lparr>Resource = ''Service/b'', Path = [''spec''], Source = '''',
        Original = GoNil, New = Num 2\<rparr>,
      \<lparr>Resource = ''Deployment/a'', Path = [''kind''], Source = '''',
        Original = GoNil, New = Num 3\<rparr>]"
  have v: "validOrder rev (groupChanges ?log [])" by (simp add: validOrder_def)
  have e: "printedGroups rev ?log
     = [(''Service/b'',
         [\<lparr>Resource = ''Service/b'', Path = [''spec''], Source = '''',
            Original = GoNil, New = Num 2\<rparr>]),
        (''Deployment/a'',
         [\<lparr>Resource = ''Deployment/a'', Path = [''spec''], Source = '''',
            Original = GoNil, New = Num 1\<rparr>,
          \<lparr>Resource = ''Deployment/a'', Path = [''kind''], Source = '''',
            Original = GoNil, New = Num 3\<rparr>])]"
    by (simp add: printedGroups_def rangeMap_def)
  from C9_groups_by_resource [OF v] have "distinct (map fst (printedGroups rev ?log))"
    by (rule conjunct1)
  with v e show ?thesis by (simp only: simp_thms)
qed

subsection \<open>A JSON patch declared by file\<close>

lemma collectJsonPatches_drops_path:
  "patch \<in> set (collectJsonPatches env dir declared []) \<Longrightarrow> patchPath patch = ''''"
  by (auto simp: collectJsonPatches_def)

text \<open>
  Claim C4 at the example directory \<^verbatim>\<open>root\<close>: the manifest declares a JSON patch with
  \<^verbatim>\<open>path: patch.json\<close> and no inline body, and \<^verbatim>\<open>root/patch.json\<close> holds one \<^verbatim>\<open>replace\<close>
  operation. \<^verbatim>\<open>processKustomization\<close> returns one patch for it, with the target, an empty
  \<^verbatim>\<open>Path\<close> and an empty \<^verbatim>\<open>Patch\<close>: the joined path was stored in the loop variable only
  and the file was not read, so the body of the file is in no field of the patch. The
  loop of \<^verbatim>\<open>main\<close> for the root directory does the same. The
  patch loop then decodes the empty body to \<^verbatim>\<open>nil\<close>, which is neither a list nor a map,
  and appends no record, although the file replaces \<^verbatim>\<open>spec.replicas\<close>. The claim says that
  the patch carries the body of the file.
\<close>

theorem C4_json_patch_file_body_lost:
  "processKustomization exampleEnv 1 ''root'' ([], [])
     = Some (Inr ([\<lparr>patchPath = '''', patchPatch = '''',
                     patchTarget = Some \<lparr>Kind = ''Deployment'', Name = ''test''\<rparr>\<rparr>],
                  [(''Deployment/test'',
                    \<lparr>GetKind = ''Deployment'', GetName = ''test'',
                      AsMap = [(''spec'', MapT [(''replicas'', Num 1)])]\<rparr>)])) \<and>
   mainCollect exampleEnv 1 ''root''
     = Some (Inr ([\<lparr>patchPath = '''', patchPatch = '''',
                     patchTarget = Some \<lparr>Kind = ''Deployment'', Name = ''test''\<rparr>\<rparr>],
                  [])) \<and>
   ReadFile exampleEnv ''root/patch.json''
     = Some ''[{op: replace, path: /spec/replicas, value: 3}]'' \<and>
   processPatches exampleEnv
     [(''Deployment/test'',
       \<lparr>GetKind = ''Deployment'', GetName = ''test'',
         AsMap = [(''spec'', MapT [(''replicas'', Num 1)])]\<rparr>)]
     [\<lparr>patchPath = '''', patchPatch = '''',
        patchTarget = Some \<lparr>Kind = ''Deployment'', Name = ''test''\<rparr>\<rparr>]
     \<lparr>fieldSources = [], warnings = []\<rparr>
     = Inr \<lparr>fieldSources = [], warnings = []\<rparr>"
  by (simp add: exampleEnv_def processKustomization_def processKustomizationBody_def
        mainCollect_def collectJsonPatches_def collectPatches_def resourceKey_def
        processPatch_def findTarget_def applyPatchContent_def)

end
